theory Spec2Isabelle
  imports Main "HOL-Library.AList" "HOL-Library.Multiset"
begin

section \<open>Python strings\<close>

text \<open>
  A Python \<open>str\<close> is a sequence of Unicode code points and \<open>len\<close> counts code points, so
  a string is a list of code points (natural numbers). Literals of the source are written
  \<open>S ''...''\<close>; a character of the source outside ASCII is written as its code point.
\<close>

type_synonym pystr = "nat list"

abbreviation S :: "string \<Rightarrow> pystr" where
  "S \<equiv> map of_char"

text \<open>\<open>str.startswith\<close>.\<close>

fun startswith :: "pystr \<Rightarrow> pystr \<Rightarrow> bool" where
  "startswith s [] = True"
| "startswith [] (p # ps) = False"
| "startswith (c # cs) (p # ps) = (c = p \<and> startswith cs ps)"

text \<open>\<open>sub in s\<close> for strings: \<open>sub\<close> occurs in \<open>s\<close> as a contiguous block.\<close>

fun contains :: "pystr \<Rightarrow> pystr \<Rightarrow> bool" where
  "contains [] sub = (sub = [])"
| "contains (c # cs) sub = (startswith (c # cs) sub \<or> contains cs sub)"

text \<open>
  Sets of code points are given as lists of ranges, both ends included.
\<close>

definition in_ranges :: "(nat \<times> nat) list \<Rightarrow> nat \<Rightarrow> bool" where
  "in_ranges rs c \<longleftrightarrow> list_ex (\<lambda>(lo, hi). lo \<le> c \<and> c \<le> hi) rs"

text \<open>
  \<open>str.lower\<close>. The tables are those of the Unicode character database, version 14.0, that
  CPython 3.11 carries. \<open>lower_table\<close> holds the code points from U+00C0 on whose lower case
  is one other code point: an entry \<open>(lo, hi, step, offset)\<close> moves every \<open>step\<close>-th code
  point from \<open>lo\<close> to \<open>hi\<close> by \<open>offset\<close>. U+0130 alone becomes two code points.
\<close>

definition lower_table :: "(nat \<times> nat \<times> nat \<times> int) list" where
  "lower_table =
    [(192, 214, 1, 32), (216, 222, 1, 32), (256, 302, 2, 1), (306, 310, 2, 1),
     (313, 327, 2, 1), (330, 374, 2, 1), (376, 376, 1, - 121), (377, 381, 2, 1),
     (385, 385, 1, 210), (386, 388, 2, 1), (390, 390, 1, 206), (391, 391, 1, 1),
     (393, 394, 1, 205), (395, 395, 1, 1), (398, 398, 1, 79), (399, 399, 1, 202),
     (400, 400, 1, 203), (401, 401, 1, 1), (403, 403, 1, 205), (404, 404, 1, 207),
     (406, 406, 1, 211), (407, 407, 1, 209), (408, 408, 1, 1), (412, 412, 1, 211),
     (413, 413, 1, 213), (415, 415, 1, 214), (416, 420, 2, 1), (422, 422, 1, 218),
     (423, 423, 1, 1), (425, 425, 1, 218), (428, 428, 1, 1), (430, 430, 1, 218),
     (431, 431, 1, 1), (433, 434, 1, 217), (435, 437, 2, 1), (439, 439, 1, 219),
     (440, 440, 1, 1), (444, 444, 1, 1), (452, 452, 1, 2), (453, 453, 1, 1), (455, 455, 1, 2),
     (456, 456, 1, 1), (458, 458, 1, 2), (459, 475, 2, 1), (478, 494, 2, 1), (497, 497, 1, 2),
     (498, 500, 2, 1), (502, 502, 1, - 97), (503, 503, 1, - 56), (504, 542, 2, 1),
     (544, 544, 1, - 130), (546, 562, 2, 1), (570, 570, 1, 10795), (571, 571, 1, 1),
     (573, 573, 1, - 163), (574, 574, 1, 10792), (577, 577, 1, 1), (579, 579, 1, - 195),
     (580, 580, 1, 69), (581, 581, 1, 71), (582, 590, 2, 1), (880, 882, 2, 1),
     (886, 886, 1, 1), (895, 895, 1, 116), (902, 902, 1, 38), (904, 906, 1, 37),
     (908, 908, 1, 64), (910, 911, 1, 63), (913, 929, 1, 32), (931, 939, 1, 32),
     (975, 975, 1, 8), (984, 1006, 2, 1), (1012, 1012, 1, - 60), (1015, 1015, 1, 1),
     (1017, 1017, 1, - 7), (1018, 1018, 1, 1), (1021, 1023, 1, - 130), (1024, 1039, 1, 80),
     (1040, 1071, 1, 32), (1120, 1152, 2, 1), (1162, 1214, 2, 1), (1216, 1216, 1, 15),
     (1217, 1229, 2, 1), (1232, 1326, 2, 1), (1329, 1366, 1, 48), (4256, 4293, 1, 7264),
     (4295, 4295, 1, 7264), (4301, 4301, 1, 7264), (5024, 5103, 1, 38864), (5104, 5109, 1, 8),
     (7312, 7354, 1, - 3008), (7357, 7359, 1, - 3008), (7680, 7828, 2, 1),
     (7838, 7838, 1, - 7615), (7840, 7934, 2, 1), (7944, 7951, 1, - 8), (7960, 7965, 1, - 8),
     (7976, 7983, 1, - 8), (7992, 7999, 1, - 8), (8008, 8013, 1, - 8), (8025, 8031, 2, - 8),
     (8040, 8047, 1, - 8), (8072, 8079, 1, - 8), (8088, 8095, 1, - 8), (8104, 8111, 1, - 8),
     (8120, 8121, 1, - 8), (8122, 8123, 1, - 74), (8124, 8124, 1, - 9), (8136, 8139, 1, - 86),
     (8140, 8140, 1, - 9), (8152, 8153, 1, - 8), (8154, 8155, 1, - 100), (8168, 8169, 1, - 8),
     (8170, 8171, 1, - 112), (8172, 8172, 1, - 7), (8184, 8185, 1, - 128),
     (8186, 8187, 1, - 126), (8188, 8188, 1, - 9), (8486, 8486, 1, - 7517),
     (8490, 8490, 1, - 8383), (8491, 8491, 1, - 8262), (8498, 8498, 1, 28),
     (8544, 8559, 1, 16), (8579, 8579, 1, 1), (9398, 9423, 1, 26), (11264, 11311, 1, 48),
     (11360, 11360, 1, 1), (11362, 11362, 1, - 10743), (11363, 11363, 1, - 3814),
     (11364, 11364, 1, - 10727), (11367, 11371, 2, 1), (11373, 11373, 1, - 10780),
     (11374, 11374, 1, - 10749), (11375, 11375, 1, - 10783), (11376, 11376, 1, - 10782),
     (11378, 11378, 1, 1), (11381, 11381, 1, 1), (11390, 11391, 1, - 10815),
     (11392, 11490, 2, 1), (11499, 11501, 2, 1), (11506, 11506, 1, 1), (42560, 42604, 2, 1),
     (42624, 42650, 2, 1), (42786, 42798, 2, 1), (42802, 42862, 2, 1), (42873, 42875, 2, 1),
     (42877, 42877, 1, - 35332), (42878, 42886, 2, 1), (42891, 42891, 1, 1),
     (42893, 42893, 1, - 42280), (42896, 42898, 2, 1), (42902, 42920, 2, 1),
     (42922, 42922, 1, - 42308), (42923, 42923, 1, - 42319), (42924, 42924, 1, - 42315),
     (42925, 42925, 1, - 42305), (42926, 42926, 1, - 42308), (42928, 42928, 1, - 42258),
     (42929, 42929, 1, - 42282), (42930, 42930, 1, - 42261), (42931, 42931, 1, 928),
     (42932, 42946, 2, 1), (42948, 42948, 1, - 48), (42949, 42949, 1, - 42307),
     (42950, 42950, 1, - 35384), (42951, 42953, 2, 1), (42960, 42960, 1, 1),
     (42966, 42968, 2, 1), (42997, 42997, 1, 1), (65313, 65338, 1, 32), (66560, 66599, 1, 40),
     (66736, 66771, 1, 40), (66928, 66938, 1, 39), (66940, 66954, 1, 39),
     (66956, 66962, 1, 39), (66964, 66965, 1, 39), (68736, 68786, 1, 64),
     (71840, 71871, 1, 32), (93760, 93791, 1, 32), (125184, 125217, 1, 34)]"

definition lower_cp :: "nat \<Rightarrow> pystr" where
  "lower_cp c =
     (if c < 192 then (if 65 \<le> c \<and> c \<le> 90 then [c + 32] else [c])
      else if c = 304 then [105, 775]
      else
        (case find (\<lambda>(lo, hi, step, offset).
                      lo \<le> c \<and> c \<le> hi \<and> (c - lo) mod step = 0) lower_table of
           None \<Rightarrow> [c]
         | Some (lo, hi, step, offset) \<Rightarrow> [nat (int c + offset)]))"

text \<open>
  The capital sigma U+03A3 becomes the final sigma U+03C2 when the nearest code point
  before it that is not case-ignorable is cased, and the nearest code point after it that
  is not case-ignorable, if there is one, is not cased; otherwise it becomes U+03C3.
  \<open>cased_ranges\<close> and \<open>case_ignorable_ranges\<close> are the code points that \<open>str.lower\<close> takes
  as cased and as case-ignorable (the capital sigma itself is cased and not
  case-ignorable).
\<close>

definition cased_ranges :: "(nat \<times> nat) list" where
  "cased_ranges =
    [(65, 90), (97, 122), (170, 170), (181, 181), (186, 186), (192, 214), (216, 246),
     (248, 442), (444, 447), (452, 659), (661, 696), (704, 705), (736, 740), (837, 837),
     (880, 883), (886, 887), (890, 893), (895, 895), (902, 902), (904, 906), (908, 908),
     (910, 929), (931, 1013), (1015, 1153), (1162, 1327), (1329, 1366), (1376, 1416),
     (4256, 4293), (4295, 4295), (4301, 4301), (4304, 4346), (4349, 4351), (5024, 5109),
     (5112, 5117), (7296, 7304), (7312, 7354), (7357, 7359), (7424, 7615), (7680, 7957),
     (7960, 7965), (7968, 8005), (8008, 8013), (8016, 8023), (8025, 8025), (8027, 8027),
     (8029, 8029), (8031, 8061), (8064, 8116), (8118, 8124), (8126, 8126), (8130, 8132),
     (8134, 8140), (8144, 8147), (8150, 8155), (8160, 8172), (8178, 8180), (8182, 8188),
     (8305, 8305), (8319, 8319), (8336, 8348), (8450, 8450), (8455, 8455), (8458, 8467),
     (8469, 8469), (8473, 8477), (8484, 8484), (8486, 8486), (8488, 8488), (8490, 8493),
     (8495, 8500), (8505, 8505), (8508, 8511), (8517, 8521), (8526, 8526), (8544, 8575),
     (8579, 8580), (9398, 9449), (11264, 11492), (11499, 11502), (11506, 11507),
     (11520, 11557), (11559, 11559), (11565, 11565), (42560, 42605), (42624, 42653),
     (42786, 42887), (42891, 42894), (42896, 42954), (42960, 42961), (42963, 42963),
     (42965, 42969), (42997, 42998), (43000, 43002), (43824, 43866), (43868, 43880),
     (43888, 43967), (64256, 64262), (64275, 64279), (65313, 65338), (65345, 65370),
     (66560, 66639), (66736, 66771), (66776, 66811), (66928, 66938), (66940, 66954),
     (66956, 66962), (66964, 66965), (66967, 66977), (66979, 66993), (66995, 67001),
     (67003, 67004), (67456, 67456), (67459, 67461), (67463, 67504), (67506, 67514),
     (68736, 68786), (68800, 68850), (71840, 71903), (93760, 93823), (119808, 119892),
     (119894, 119964), (119966, 119967), (119970, 119970), (119973, 119974), (119977, 119980),
     (119982, 119993), (119995, 119995), (119997, 120003), (120005, 120069), (120071, 120074),
     (120077, 120084), (120086, 120092), (120094, 120121), (120123, 120126), (120128, 120132),
     (120134, 120134), (120138, 120144), (120146, 120485), (120488, 120512), (120514, 120538),
     (120540, 120570), (120572, 120596), (120598, 120628), (120630, 120654), (120656, 120686),
     (120688, 120712), (120714, 120744), (120746, 120770), (120772, 120779), (122624, 122633),
     (122635, 122654), (125184, 125251), (127280, 127305), (127312, 127337), (127344, 127369)]"

definition case_ignorable_ranges :: "(nat \<times> nat) list" where
  "case_ignorable_ranges =
    [(39, 39), (46, 46), (58, 58), (94, 94), (96, 96), (168, 168), (173, 173), (175, 175),
     (180, 180), (183, 184), (688, 879), (884, 885), (890, 890), (900, 901), (903, 903),
     (1155, 1161), (1369, 1369), (1375, 1375), (1425, 1469), (1471, 1471), (1473, 1474),
     (1476, 1477), (1479, 1479), (1524, 1524), (1536, 1541), (1552, 1562), (1564, 1564),
     (1600, 1600), (1611, 1631), (1648, 1648), (1750, 1757), (1759, 1768), (1770, 1773),
     (1807, 1807), (1809, 1809), (1840, 1866), (1958, 1968), (2027, 2037), (2042, 2042),
     (2045, 2045), (2070, 2093), (2137, 2139), (2184, 2184), (2192, 2193), (2200, 2207),
     (2249, 2306), (2362, 2362), (2364, 2364), (2369, 2376), (2381, 2381), (2385, 2391),
     (2402, 2403), (2417, 2417), (2433, 2433), (2492, 2492), (2497, 2500), (2509, 2509),
     (2530, 2531), (2558, 2558), (2561, 2562), (2620, 2620), (2625, 2626), (2631, 2632),
     (2635, 2637), (2641, 2641), (2672, 2673), (2677, 2677), (2689, 2690), (2748, 2748),
     (2753, 2757), (2759, 2760), (2765, 2765), (2786, 2787), (2810, 2815), (2817, 2817),
     (2876, 2876), (2879, 2879), (2881, 2884), (2893, 2893), (2901, 2902), (2914, 2915),
     (2946, 2946), (3008, 3008), (3021, 3021), (3072, 3072), (3076, 3076), (3132, 3132),
     (3134, 3136), (3142, 3144), (3146, 3149), (3157, 3158), (3170, 3171), (3201, 3201),
     (3260, 3260), (3263, 3263), (3270, 3270), (3276, 3277), (3298, 3299), (3328, 3329),
     (3387, 3388), (3393, 3396), (3405, 3405), (3426, 3427), (3457, 3457), (3530, 3530),
     (3538, 3540), (3542, 3542), (3633, 3633), (3636, 3642), (3654, 3662), (3761, 3761),
     (3764, 3772), (3782, 3782), (3784, 3789), (3864, 3865), (3893, 3893), (3895, 3895),
     (3897, 3897), (3953, 3966), (3968, 3972), (3974, 3975), (3981, 3991), (3993, 4028),
     (4038, 4038), (4141, 4144), (4146, 4151), (4153, 4154), (4157, 4158), (4184, 4185),
     (4190, 4192), (4209, 4212), (4226, 4226), (4229, 4230), (4237, 4237), (4253, 4253),
     (4348, 4348), (4957, 4959), (5906, 5908), (5938, 5939), (5970, 5971), (6002, 6003),
     (6068, 6069), (6071, 6077), (6086, 6086), (6089, 6099), (6103, 6103), (6109, 6109),
     (6155, 6159), (6211, 6211), (6277, 6278), (6313, 6313), (6432, 6434), (6439, 6440),
     (6450, 6450), (6457, 6459), (6679, 6680), (6683, 6683), (6742, 6742), (6744, 6750),
     (6752, 6752), (6754, 6754), (6757, 6764), (6771, 6780), (6783, 6783), (6823, 6823),
     (6832, 6862), (6912, 6915), (6964, 6964), (6966, 6970), (6972, 6972), (6978, 6978),
     (7019, 7027), (7040, 7041), (7074, 7077), (7080, 7081), (7083, 7085), (7142, 7142),
     (7144, 7145), (7149, 7149), (7151, 7153), (7212, 7219), (7222, 7223), (7288, 7293),
     (7376, 7378), (7380, 7392), (7394, 7400), (7405, 7405), (7412, 7412), (7416, 7417),
     (7468, 7530), (7544, 7544), (7579, 7679), (8125, 8125), (8127, 8129), (8141, 8143),
     (8157, 8159), (8173, 8175), (8189, 8190), (8203, 8207), (8216, 8217), (8228, 8228),
     (8231, 8231), (8234, 8238), (8288, 8292), (8294, 8303), (8305, 8305), (8319, 8319),
     (8336, 8348), (8400, 8432), (11388, 11389), (11503, 11505), (11631, 11631),
     (11647, 11647), (11744, 11775), (11823, 11823), (12293, 12293), (12330, 12333),
     (12337, 12341), (12347, 12347), (12441, 12446), (12540, 12542), (40981, 40981),
     (42232, 42237), (42508, 42508), (42607, 42610), (42612, 42621), (42623, 42623),
     (42652, 42655), (42736, 42737), (42752, 42785), (42864, 42864), (42888, 42890),
     (42994, 42996), (43000, 43001), (43010, 43010), (43014, 43014), (43019, 43019),
     (43045, 43046), (43052, 43052), (43204, 43205), (43232, 43249), (43263, 43263),
     (43302, 43309), (43335, 43345), (43392, 43394), (43443, 43443), (43446, 43449),
     (43452, 43453), (43471, 43471), (43493, 43494), (43561, 43566), (43569, 43570),
     (43573, 43574), (43587, 43587), (43596, 43596), (43632, 43632), (43644, 43644),
     (43696, 43696), (43698, 43700), (43703, 43704), (43710, 43711), (43713, 43713),
     (43741, 43741), (43756, 43757), (43763, 43764), (43766, 43766), (43867, 43871),
     (43881, 43883), (44005, 44005), (44008, 44008), (44013, 44013), (64286, 64286),
     (64434, 64450), (65024, 65039), (65043, 65043), (65056, 65071), (65106, 65106),
     (65109, 65109), (65279, 65279), (65287, 65287), (65294, 65294), (65306, 65306),
     (65342, 65342), (65344, 65344), (65392, 65392), (65438, 65439), (65507, 65507),
     (65529, 65531), (66045, 66045), (66272, 66272), (66422, 66426), (67456, 67461),
     (67463, 67504), (67506, 67514), (68097, 68099), (68101, 68102), (68108, 68111),
     (68152, 68154), (68159, 68159), (68325, 68326), (68900, 68903), (69291, 69292),
     (69446, 69456), (69506, 69509), (69633, 69633), (69688, 69702), (69744, 69744),
     (69747, 69748), (69759, 69761), (69811, 69814), (69817, 69818), (69821, 69821),
     (69826, 69826), (69837, 69837), (69888, 69890), (69927, 69931), (69933, 69940),
     (70003, 70003), (70016, 70017), (70070, 70078), (70089, 70092), (70095, 70095),
     (70191, 70193), (70196, 70196), (70198, 70199), (70206, 70206), (70367, 70367),
     (70371, 70378), (70400, 70401), (70459, 70460), (70464, 70464), (70502, 70508),
     (70512, 70516), (70712, 70719), (70722, 70724), (70726, 70726), (70750, 70750),
     (70835, 70840), (70842, 70842), (70847, 70848), (70850, 70851), (71090, 71093),
     (71100, 71101), (71103, 71104), (71132, 71133), (71219, 71226), (71229, 71229),
     (71231, 71232), (71339, 71339), (71341, 71341), (71344, 71349), (71351, 71351),
     (71453, 71455), (71458, 71461), (71463, 71467), (71727, 71735), (71737, 71738),
     (71995, 71996), (71998, 71998), (72003, 72003), (72148, 72151), (72154, 72155),
     (72160, 72160), (72193, 72202), (72243, 72248), (72251, 72254), (72263, 72263),
     (72273, 72278), (72281, 72283), (72330, 72342), (72344, 72345), (72752, 72758),
     (72760, 72765), (72767, 72767), (72850, 72871), (72874, 72880), (72882, 72883),
     (72885, 72886), (73009, 73014), (73018, 73018), (73020, 73021), (73023, 73029),
     (73031, 73031), (73104, 73105), (73109, 73109), (73111, 73111), (73459, 73460),
     (78896, 78904), (92912, 92916), (92976, 92982), (92992, 92995), (94031, 94031),
     (94095, 94111), (94176, 94177), (94179, 94180), (110576, 110579), (110581, 110587),
     (110589, 110590), (113821, 113822), (113824, 113827), (118528, 118573), (118576, 118598),
     (119143, 119145), (119155, 119170), (119173, 119179), (119210, 119213), (119362, 119364),
     (121344, 121398), (121403, 121452), (121461, 121461), (121476, 121476), (121499, 121503),
     (121505, 121519), (122880, 122886), (122888, 122904), (122907, 122913), (122915, 122916),
     (122918, 122922), (123184, 123197), (123566, 123566), (123628, 123631), (125136, 125142),
     (125252, 125259), (127995, 127999), (917505, 917505), (917536, 917631), (917760, 917999)]"

definition final_sigma :: "pystr \<Rightarrow> pystr \<Rightarrow> bool" where
  "final_sigma before after \<longleftrightarrow>
     (case dropWhile (in_ranges case_ignorable_ranges) before of
        [] \<Rightarrow> False
      | c # _ \<Rightarrow> in_ranges cased_ranges c)
     \<and> (case dropWhile (in_ranges case_ignorable_ranges) after of
          [] \<Rightarrow> True
        | c # _ \<Rightarrow> \<not> in_ranges cased_ranges c)"

text \<open>
  \<open>lower_from before s\<close> lower-cases \<open>s\<close>, where \<open>before\<close> holds the code points that
  precede \<open>s\<close> in the string, the nearest first.
\<close>

fun lower_from :: "pystr \<Rightarrow> pystr \<Rightarrow> pystr" where
  "lower_from before [] = []"
| "lower_from before (c # cs) =
     (if c = 931 then [if final_sigma before cs then 962 else 963] else lower_cp c)
     @ lower_from (c # before) cs"

definition lower :: "pystr \<Rightarrow> pystr" where
  "lower s = lower_from [] s"

text \<open>\<open>str(n)\<close> for an integer: decimal digits, a minus sign for a negative number.\<close>

fun digits :: "nat \<Rightarrow> pystr" where
  "digits n = (if n < 10 then [48 + n] else digits (n div 10) @ [48 + n mod 10])"

declare digits.simps [simp del]

definition str_int :: "int \<Rightarrow> pystr" where
  "str_int i = (if i < 0 then S ''-'' @ digits (nat (- i)) else digits (nat i))"

text \<open>
  The format specification \<open>02d\<close>: the decimal number, zero-filled after the sign to a
  total width of two.
\<close>

definition fmt_02d :: "int \<Rightarrow> pystr" where
  "fmt_02d i =
     (if i < 0 then S ''-'' @ replicate (1 - length (digits (nat (- i)))) 48 @ digits (nat (- i))
      else replicate (2 - length (digits (nat i))) 48 @ digits (nat i))"

section \<open>Channel video lister (youtube-channel.py)\<close>

text \<open>
  A value read from a dictionary of the extraction library with \<open>.get\<close>: the key is
  missing, or its value is \<open>None\<close>, or it holds a value.
\<close>

datatype 'a field = Missing | Null | Val 'a

text \<open>\<open>d.get(k, default)\<close>: the default only stands in for a missing key.\<close>

fun get_default :: "'a field \<Rightarrow> 'a \<Rightarrow> 'a option" where
  "get_default Missing d = Some d"
| "get_default Null d = None"
| "get_default (Val x) d = Some x"

text \<open>\<open>d.get(k)\<close>.\<close>

fun get :: "'a field \<Rightarrow> 'a option" where
  "get Missing = None"
| "get Null = None"
| "get (Val x) = Some x"

text \<open>
  One entry of the channel listing. Durations are whole seconds and view counts are
  integers (Python's unbounded \<open>int\<close>).
\<close>

record entry =
  e_id :: "pystr field"
  e_title :: "pystr field"
  e_duration :: "int field"
  e_view_count :: "int field"
  e_upload_date :: "pystr field"
  e_description :: "pystr field"

text \<open>
  The dictionary built for one video. An optional key that is not set is \<open>None\<close>; \<open>id\<close>
  and \<open>title\<close> are \<open>None\<close> when the entry holds a null there.
\<close>

record video =
  v_index :: nat
  v_id :: "pystr option"
  v_title :: "pystr option"
  v_url :: pystr
  v_duration :: int
  v_duration_human :: pystr
  v_views :: int
  v_upload_date :: "pystr option"
  v_description_snippet :: "pystr option"

text \<open>\<open>_format_duration\<close>; \<open>//\<close> and \<open>%\<close> round to minus infinity, as \<open>div\<close> and \<open>mod\<close> do.\<close>

definition format_duration :: "int option \<Rightarrow> pystr" where
  "format_duration seconds =
     (case seconds of
        None \<Rightarrow> S ''0:00''
      | Some sec \<Rightarrow>
          if sec = 0 then S ''0:00''
          else
            (let hours = sec div 3600;
                 minutes = (sec mod 3600) div 60;
                 secs = sec mod 60
             in if hours > 0
                then str_int hours @ S '':'' @ fmt_02d minutes @ S '':'' @ fmt_02d secs
                else str_int minutes @ S '':'' @ fmt_02d secs))"

text \<open>\<open>x or 0\<close> for an optional number.\<close>

definition or_zero :: "int option \<Rightarrow> int" where
  "or_zero x = (case x of None \<Rightarrow> 0 | Some n \<Rightarrow> n)"

text \<open>A value formatted into an f-string: \<open>None\<close> prints as the word None.\<close>

definition fstr :: "pystr option \<Rightarrow> pystr" where
  "fstr x = (case x of None \<Rightarrow> S ''None'' | Some s \<Rightarrow> s)"

text \<open>The truth value of an optional string: \<open>None\<close> and the empty string are false.\<close>

definition truthy :: "pystr option \<Rightarrow> bool" where
  "truthy x = (case x of None \<Rightarrow> False | Some s \<Rightarrow> s \<noteq> [])"

text \<open>The body of the loop over \<open>enumerate(entries)\<close> for an entry that is not \<open>None\<close>.\<close>

definition mk_video :: "bool \<Rightarrow> nat \<Rightarrow> entry \<Rightarrow> video" where
  "mk_video with_dates i e =
     \<lparr> v_index = i + 1,
       v_id = get_default (e_id e) [],
       v_title = get_default (e_title e) (S ''Unknown''),
       v_url = S ''https://youtube.com/watch?v='' @ fstr (get_default (e_id e) []),
       v_duration = or_zero (get (e_duration e)),
       v_duration_human = format_duration (get (e_duration e)),
       v_views = or_zero (get (e_view_count e)),
       v_upload_date =
         (if with_dates \<and> truthy (get (e_upload_date e)) then get (e_upload_date e) else None),
       v_description_snippet =
         (case get_default (e_description e) [] of
            None \<Rightarrow> None
          | Some desc \<Rightarrow>
              if desc = [] then None
              else Some (if length desc > 200 then take 200 desc @ S ''...'' else desc)) \<rparr>"

text \<open>The loop itself: \<open>None\<close> entries are skipped but counted by \<open>enumerate\<close>.\<close>

fun process_entries :: "bool \<Rightarrow> nat \<Rightarrow> entry option list \<Rightarrow> video list" where
  "process_entries with_dates i [] = []"
| "process_entries with_dates i (None # es) = process_entries with_dates (i + 1) es"
| "process_entries with_dates i (Some e # es) =
     mk_video with_dates i e # process_entries with_dates (i + 1) es"

text \<open>What the function returns in place of a listing.\<close>

datatype error =
  Could_not_fetch
  | No_videos_found
  | Download_error pystr
  | Error pystr
  | Error_AttributeError

text \<open>
  The search filter. \<open>v['title'].lower()\<close> raises AttributeError on a title that is
  \<open>None\<close>; the handler of \<open>get_channel_videos\<close> turns it into an error result.
\<close>

definition matches_search :: "pystr \<Rightarrow> video \<Rightarrow> error + bool" where
  "matches_search search_lower v =
     (case v_title v of
        None \<Rightarrow> Inl Error_AttributeError
      | Some t \<Rightarrow>
          Inr (contains (lower t) search_lower
               \<or> contains (lower (case v_description_snippet v of None \<Rightarrow> [] | Some d \<Rightarrow> d))
                    search_lower))"

fun search_filter :: "pystr \<Rightarrow> video list \<Rightarrow> error + video list" where
  "search_filter search_lower [] = Inr []"
| "search_filter search_lower (v # vs) =
     (case matches_search search_lower v of
        Inl e \<Rightarrow> Inl e
      | Inr keep \<Rightarrow>
          (case search_filter search_lower vs of
             Inl e \<Rightarrow> Inl e
           | Inr r \<Rightarrow> Inr (if keep then v # r else r)))"

text \<open>The filter runs when a search term is given and is not empty (\<open>if search:\<close>).\<close>

definition filter_videos :: "pystr option \<Rightarrow> video list \<Rightarrow> error + video list" where
  "filter_videos search videos =
     (if truthy search then search_filter (lower (the search)) videos else Inr videos)"

text \<open>
  \<open>list.sort(key=..., reverse=...)\<close>. The sort is stable; with \<open>reverse=True\<close> the list is
  reversed, sorted and reversed again, so that elements with equal keys keep their order.
\<close>

definition py_sort :: "('a \<Rightarrow> int) \<Rightarrow> bool \<Rightarrow> 'a list \<Rightarrow> 'a list" where
  "py_sort key reverse xs =
     (if reverse then rev (sort_key key (rev xs)) else sort_key key xs)"

definition sort_videos :: "pystr \<Rightarrow> video list \<Rightarrow> video list" where
  "sort_videos sort_by videos =
     (if sort_by = S ''views'' then py_sort v_views True videos
      else if sort_by = S ''duration'' then py_sort v_duration True videos
      else if sort_by = S ''duration_asc'' then py_sort v_duration False videos
      else videos)"

definition apply_limit :: "int option \<Rightarrow> video list \<Rightarrow> video list" where
  "apply_limit limit videos =
     (case limit of
        None \<Rightarrow> videos
      | Some n \<Rightarrow> if n \<noteq> 0 \<and> n > 0 then take (nat n) videos else videos)"

text \<open>What \<open>ydl.extract_info\<close> gives back: the fields of \<open>info\<close> that the lister reads.\<close>

record info =
  i_channel :: "pystr field"
  i_uploader :: "pystr field"
  i_channel_id :: "pystr field"
  i_uploader_id :: "pystr field"
  i_entries :: "entry option list field"

datatype fetched =
  Raises_DownloadError pystr
  | Raises_Exception pystr
  | Returns "info option"

record listing =
  l_channel :: "pystr option"
  l_channel_id :: "pystr option"
  l_total_count :: nat
  l_returned_count :: nat
  l_sort :: pystr
  l_search :: "pystr option"
  l_videos :: "video list"

text \<open>
  \<open>get_channel_videos\<close> from the point where \<open>extract_info\<close> has answered; the answer is
  the first argument.
\<close>

definition get_channel_videos ::
  "fetched \<Rightarrow> int option \<Rightarrow> pystr \<Rightarrow> pystr option \<Rightarrow> bool \<Rightarrow> error + listing" where
  "get_channel_videos fetch limit sort_by search with_dates =
     (case fetch of
        Raises_DownloadError m \<Rightarrow> Inl (Download_error m)
      | Raises_Exception m \<Rightarrow> Inl (Error m)
      | Returns None \<Rightarrow> Inl Could_not_fetch
      | Returns (Some nfo) \<Rightarrow>
          (case get_default (i_entries nfo) [] of
             None \<Rightarrow> Inl No_videos_found
           | Some entries \<Rightarrow>
               if entries = [] then Inl No_videos_found
               else
                 (let videos = process_entries with_dates 0 entries
                  in case filter_videos search videos of
                       Inl e \<Rightarrow> Inl e
                     | Inr vs \<Rightarrow>
                         (let limited = apply_limit limit (sort_videos sort_by vs)
                          in Inr \<lparr> l_channel =
                                     (case i_channel nfo of
                                        Missing \<Rightarrow> get_default (i_uploader nfo) (S ''Unknown'')
                                      | Null \<Rightarrow> None
                                      | Val c \<Rightarrow> Some c),
                                   l_channel_id =
                                     (case i_channel_id nfo of
                                        Missing \<Rightarrow> get_default (i_uploader_id nfo) []
                                      | Null \<Rightarrow> None
                                      | Val c \<Rightarrow> Some c),
                                   l_total_count = length entries,
                                   l_returned_count = length limited,
                                   l_sort = sort_by,
                                   l_search = search,
                                   l_videos = limited \<rparr>))))"

text \<open>
  \<open>main\<close>: the \<open>--limit\<close> option (default 20 when the option is not given) and the limit
  handed to \<open>get_channel_videos\<close>.
\<close>

definition args_limit :: "int option \<Rightarrow> int" where
  "args_limit given = (case given of None \<Rightarrow> 20 | Some n \<Rightarrow> n)"

definition main_limit :: "int option \<Rightarrow> int option" where
  "main_limit given = (if args_limit given > 0 then Some (args_limit given) else None)"

text \<open>The call \<open>main\<close> makes, from the \<open>--limit\<close> option as given on the command line.\<close>

definition main_get_channel_videos ::
  "int option \<Rightarrow> fetched \<Rightarrow> pystr \<Rightarrow> pystr option \<Rightarrow> bool \<Rightarrow> error + listing" where
  "main_get_channel_videos given fetch sort_by search with_dates =
     get_channel_videos fetch (main_limit given) sort_by search with_dates"

text \<open>Test data: a fetched listing with the given entries, and an entry with a view count only.\<close>

definition listing_of :: "entry option list \<Rightarrow> fetched" where
  "listing_of es =
     Returns (Some \<lparr> i_channel = Missing, i_uploader = Missing, i_channel_id = Missing,
                     i_uploader_id = Missing, i_entries = Val es \<rparr>)"

definition views_entry :: "int \<Rightarrow> entry" where
  "views_entry n =
     \<lparr> e_id = Missing, e_title = Missing, e_duration = Missing, e_view_count = Val n,
       e_upload_date = Missing, e_description = Missing \<rparr>"

section \<open>Transcript extractor (youtube-transcript.py)\<close>

subsection \<open>Video-ID extraction\<close>










subsection \<open>Caption tracks and languages\<close>

text \<open>
  A Python dictionary with string keys: its items in insertion order, the keys distinct.
\<close>

type_synonym 'v dict = "(pystr \<times> 'v) list"

definition has_key :: "'v dict \<Rightarrow> pystr \<Rightarrow> bool" where
  "has_key d k \<longleftrightarrow> k \<in> set (map fst d)"

text \<open>
  \<open>{**a, **b}\<close>: the items of \<open>a\<close>, then those of \<open>b\<close>, are stored into a new dictionary;
  storing under a key that is there replaces the value and keeps the key's place.
\<close>

definition dict_merge :: "'v dict \<Rightarrow> 'v dict \<Rightarrow> 'v dict" where
  "dict_merge a b = fold (\<lambda>(k, v) d. AList.update k v d) (a @ b) []"

text \<open>One caption track: the keys \<open>ext\<close> and \<open>url\<close> of its dictionary.\<close>

record caption =
  c_ext :: "pystr field"
  c_url :: "pystr field"

text \<open>The fields of \<open>info\<close> that decide the choice of the track.\<close>

record video_info =
  vi_automatic_captions :: "caption list dict field"
  vi_subtitles :: "caption list dict field"
  vi_language :: "pystr field"
  vi_original_language :: "pystr field"

datatype transcript_error =
  No_subtitles_available
  | Language_not_found pystr "pystr list"
  | Could_not_get_subtitle_URL
  | Error_KeyError pystr
  | Error_TypeError
  | Error_IndexError

text \<open>\<open>a or b\<close> for optional strings.\<close>

definition or_else :: "pystr option \<Rightarrow> pystr option \<Rightarrow> pystr option" where
  "or_else a b = (if truthy a then a else b)"

text \<open>
  The loop of the partial match: the first language whose lower-cased code contains the
  lower-cased preferred code.
\<close>

fun partial_match :: "pystr \<Rightarrow> pystr list \<Rightarrow> pystr option" where
  "partial_match preferred [] = None"
| "partial_match preferred (lang # langs) =
     (if contains (lower lang) (lower preferred) then Some lang
      else partial_match preferred langs)"

text \<open>The loop over \<open>['en', 'en-US', 'en-GB']\<close>: the first that is a key.\<close>

fun first_key :: "pystr list \<Rightarrow> 'v dict \<Rightarrow> pystr option" where
  "first_key [] d = None"
| "first_key (lang # langs) d = (if has_key d lang then Some lang else first_key langs d)"

text \<open>
  The language selection of \<open>get_transcript\<close>, from the merged caption map, the original
  language and the preferred language. \<open>available_langs[0]\<close> raises IndexError on an empty
  list.
\<close>

definition select_language ::
  "'v dict \<Rightarrow> pystr option \<Rightarrow> pystr option \<Rightarrow> transcript_error + pystr" where
  "select_language all_captions original_lang preferred_lang =
     (let available_langs = map fst all_captions in
      if truthy preferred_lang then
        (let preferred = the preferred_lang in
         if has_key all_captions preferred then Inr preferred
         else
           (let selected_lang = partial_match preferred available_langs in
            if \<not> truthy selected_lang then Inl (Language_not_found preferred available_langs)
            else Inr (the selected_lang)))
      else if truthy original_lang \<and> has_key all_captions (the original_lang)
      then Inr (the original_lang)
      else
        (let selected_lang = first_key [S ''en'', S ''en-US'', S ''en-GB''] all_captions in
         if \<not> truthy selected_lang then
           (case available_langs of [] \<Rightarrow> Inl Error_IndexError | lang # _ \<Rightarrow> Inr lang)
         else Inr (the selected_lang)))"

text \<open>
  The first loop over the tracks of the language: at the first track whose \<open>ext\<close> is vtt,
  \<open>caption_url\<close> and \<open>caption_format\<close> are set and the loop ends. \<open>caption['url']\<close> raises
  KeyError when the track has no such key. The result is the pair of the two variables.
\<close>

fun vtt_loop :: "caption list \<Rightarrow> transcript_error + (pystr option \<times> pystr option)" where
  "vtt_loop [] = Inr (None, None)"
| "vtt_loop (c # cs) =
     (if get (c_ext c) = Some (S ''vtt'') then
        (case c_url c of
           Missing \<Rightarrow> Inl (Error_KeyError (S ''url''))
         | Null \<Rightarrow> Inr (None, Some (S ''vtt''))
         | Val u \<Rightarrow> Inr (Some u, Some (S ''vtt'')))
      else vtt_loop cs)"

text \<open>The second loop, entered with the variables as the first loop left them.\<close>

fun fallback_loop ::
  "caption list \<Rightarrow> pystr option \<times> pystr option
     \<Rightarrow> transcript_error + (pystr option \<times> pystr option)" where
  "fallback_loop [] st = Inr st"
| "fallback_loop (c # cs) st =
     (case get (c_ext c) of
        None \<Rightarrow> fallback_loop cs st
      | Some ext \<Rightarrow>
          if ext \<in> set [S ''srv1'', S ''srv2'', S ''srv3'', S ''json3''] then
            (case c_url c of
               Missing \<Rightarrow> Inl (Error_KeyError (S ''url''))
             | Null \<Rightarrow> Inr (None, Some ext)
             | Val u \<Rightarrow> Inr (Some u, Some ext))
          else fallback_loop cs st)"

text \<open>The caption URL and format, or the error returned.\<close>

definition select_caption :: "caption list \<Rightarrow> transcript_error + (pystr \<times> pystr option)" where
  "select_caption captions =
     (case vtt_loop captions of
        Inl e \<Rightarrow> Inl e
      | Inr st \<Rightarrow>
          (case (if \<not> truthy (fst st) then fallback_loop captions st else Inr st) of
             Inl e \<Rightarrow> Inl e
           | Inr (caption_url, caption_format) \<Rightarrow>
               if \<not> truthy caption_url then Inl Could_not_get_subtitle_URL
               else Inr (the caption_url, caption_format)))"

record selection =
  s_language :: pystr
  s_available_languages :: "pystr list"
  s_caption_url :: pystr
  s_caption_format :: "pystr option"

text \<open>
  \<open>get_transcript\<close> from the answer of \<open>extract_info\<close> up to the download of the chosen
  track. Unpacking \<open>None\<close> in \<open>{**auto_captions, **subtitles}\<close> raises TypeError and a
  missing key in \<open>all_captions[selected_lang]\<close> KeyError; the handler returns them as errors.
\<close>

definition get_transcript :: "video_info \<Rightarrow> pystr option \<Rightarrow> transcript_error + selection" where
  "get_transcript nfo preferred_lang =
     (case (get_default (vi_automatic_captions nfo) [], get_default (vi_subtitles nfo) []) of
        (Some auto_captions, Some subtitles) \<Rightarrow>
          (let all_captions = dict_merge auto_captions subtitles in
           if all_captions = [] then Inl No_subtitles_available
           else
             (let available_langs = map fst all_captions;
                  original_lang = or_else (get (vi_language nfo)) (get (vi_original_language nfo))
              in case select_language all_captions original_lang preferred_lang of
                   Inl e \<Rightarrow> Inl e
                 | Inr selected_lang \<Rightarrow>
                     (case map_of all_captions selected_lang of
                        None \<Rightarrow> Inl (Error_KeyError selected_lang)
                      | Some captions \<Rightarrow>
                          (case select_caption captions of
                             Inl e \<Rightarrow> Inl e
                           | Inr (caption_url, caption_format) \<Rightarrow>
                               Inr \<lparr> s_language = selected_lang,
                                     s_available_languages = available_langs,
                                     s_caption_url = caption_url,
                                     s_caption_format = caption_format \<rparr>))))
      | _ \<Rightarrow> Inl Error_TypeError)"

text \<open>Test data: a caption track with an extension and a URL.\<close>

definition track :: "string \<Rightarrow> string \<Rightarrow> caption" where
  "track ext url = \<lparr> c_ext = Val (S ext), c_url = Val (S url) \<rparr>"

section \<open>Search result parser (jina-google-search.py)\<close>

subsection \<open>Character classes and string methods\<close>

text \<open>
  The white space of \<open>str.strip\<close> and of \<open>\s\<close> in a pattern: the code points for which
  \<open>str.isspace\<close> holds.
\<close>

definition isspace :: "nat \<Rightarrow> bool" where
  "isspace c \<longleftrightarrow>
     (9 \<le> c \<and> c \<le> 13) \<or> (28 \<le> c \<and> c \<le> 32) \<or> c = 133 \<or> c = 160 \<or> c = 5760
     \<or> (8192 \<le> c \<and> c \<le> 8202) \<or> c = 8232 \<or> c = 8233 \<or> c = 8239 \<or> c = 8287 \<or> c = 12288"

definition strip :: "pystr \<Rightarrow> pystr" where
  "strip s = rev (dropWhile isspace (rev (dropWhile isspace s)))"

text \<open>\<open>content.split('\n')\<close>: a text without a newline is one line, the empty text too.\<close>

fun split_lines :: "pystr \<Rightarrow> pystr list" where
  "split_lines [] = [[]]"
| "split_lines (c # cs) =
     (if c = 10 then [] # split_lines cs
      else (case split_lines cs of [] \<Rightarrow> [[c]] | l # ls \<Rightarrow> (c # l) # ls))"

text \<open>
  Every string the patterns of the parser are applied to is a line of
  \<open>content.split('\n')\<close> or a part of one, so it holds no newline: on these strings \<open>.\<close>
  matches any character and \<open>$\<close> matches at the end of the string only. The patterns are
  modelled on such strings.

  Matching with \<open>re.I\<close>: a lower-case ASCII letter of a pattern matches itself, its capital,
  and for i, s and k also U+0130 and U+0131, U+017F, U+212A. \<open>ci_fold\<close> maps a character to
  the ASCII letter it matches, and any other character to itself.
\<close>

definition ci_fold :: "nat \<Rightarrow> nat" where
  "ci_fold c =
     (if 65 \<le> c \<and> c \<le> 90 then c + 32
      else if c = 304 \<or> c = 305 then 105
      else if c = 383 then 115
      else if c = 8490 then 107
      else c)"

text \<open>\<open>[a-z]\<close> under \<open>re.I\<close>.\<close>

definition ci_letter :: "nat \<Rightarrow> bool" where
  "ci_letter c \<longleftrightarrow> 97 \<le> ci_fold c \<and> ci_fold c \<le> 122"

text \<open>\<open>[a-z0-9.-]\<close> under \<open>re.I\<close>.\<close>

definition domain_char :: "nat \<Rightarrow> bool" where
  "domain_char c \<longleftrightarrow> ci_letter c \<or> (48 \<le> c \<and> c \<le> 57) \<or> c = 46 \<or> c = 45"

subsection \<open>Filtering\<close>

definition FILTER_DOMAINS :: "pystr list" where
  "FILTER_DOMAINS =
     [S ''google.com'', S ''gstatic.com'', S ''ytimg.com'', S ''googleapis.com'',
      S ''googleusercontent.com'']"

text \<open>\<open>re.search(r'\.(png|jpg|gif|svg)$', url, re.I)\<close>: the last four characters.\<close>

definition image_file :: "pystr \<Rightarrow> bool" where
  "image_file url \<longleftrightarrow>
     4 \<le> length url
     \<and> take 1 (drop (length url - 4) url) = S ''.''
     \<and> map ci_fold (drop (length url - 3) url) \<in> set [S ''png'', S ''jpg'', S ''gif'', S ''svg'']"

definition should_filter :: "pystr \<Rightarrow> bool" where
  "should_filter url \<longleftrightarrow>
     list_ex (\<lambda>domain. contains url domain) FILTER_DOMAINS
     \<or> startswith url (S ''blob:'') \<or> image_file url"

subsection \<open>The header pattern\<close>

text \<open>
  \<open>result_pattern\<close> is \<open>^\[### (.+)\]\((https?://[^)]+)\)$\<close>. \<open>url_tail\<close> is its part from
  \<open>\]\<close> on, matched at the start of a string, and gives group 2: after \<open>](http\<close> an
  optional s, then \<open>://\<close>, then the longest run of characters other than the closing
  parenthesis, which must not be empty and must be followed by one closing parenthesis
  that ends the string.
\<close>

definition url_run :: "pystr \<Rightarrow> pystr \<Rightarrow> pystr option" where
  "url_run scheme r =
     (if takeWhile (\<lambda>c. c \<noteq> 41) r \<noteq> [] \<and> dropWhile (\<lambda>c. c \<noteq> 41) r = S '')''
      then Some (scheme @ takeWhile (\<lambda>c. c \<noteq> 41) r) else None)"

definition url_tail :: "pystr \<Rightarrow> pystr option" where
  "url_tail t =
     (if startswith t (S ''](https://'') then url_run (S ''https://'') (drop 10 t)
      else if startswith t (S ''](http://'') then url_run (S ''http://'') (drop 9 t)
      else None)"

text \<open>
  The group \<open>(.+)\<close> is greedy: it takes as many characters as it can, and gives them back
  one at a time until the rest of the pattern matches. \<open>last_split title rest\<close> has
  \<open>title\<close> already in the group and tries the longer groups first.
\<close>

fun last_split :: "pystr \<Rightarrow> pystr \<Rightarrow> (pystr \<times> pystr) option" where
  "last_split title [] = None"
| "last_split title (c # cs) =
     (case last_split (title @ [c]) cs of
        Some r \<Rightarrow> Some r
      | None \<Rightarrow>
          if title \<noteq> [] then
            (case url_tail (c # cs) of Some url \<Rightarrow> Some (title, url) | None \<Rightarrow> None)
          else None)"

text \<open>\<open>result_pattern.match(line)\<close>: the groups 1 and 2.\<close>

definition match_result :: "pystr \<Rightarrow> (pystr \<times> pystr) option" where
  "match_result line =
     (if startswith line (S ''[### '') then last_split [] (drop 5 line) else None)"

subsection \<open>Cleaning the title and the URL\<close>

text \<open>
  \<open>re.sub(r'\s*!\[.*$', '', raw_title)\<close>: the text is cut at the first position from which
  white space, if any, is followed by \<open>![\<close>.
\<close>

fun cut_image :: "pystr \<Rightarrow> pystr" where
  "cut_image [] = []"
| "cut_image (c # cs) =
     (if startswith (dropWhile isspace (c # cs)) (S ''!['') then [] else c # cut_image cs)"

text \<open>
  \<open>re.sub(r'[...].*$', '', title)\<close> with the class of the backslash, U+203A and U+00BB:
  the text is cut at the first of these characters.
\<close>

definition cut_breadcrumb :: "pystr \<Rightarrow> pystr" where
  "cut_breadcrumb s = takeWhile (\<lambda>c. c \<noteq> 92 \<and> c \<noteq> 8250 \<and> c \<noteq> 187) s"

text \<open>\<open>re.sub(r'\s+', ' ', title)\<close>: every run of white space becomes one space.\<close>

function collapse_ws :: "pystr \<Rightarrow> pystr" where
  "collapse_ws [] = []"
| "collapse_ws (c # cs) =
     (if isspace c then 32 # collapse_ws (dropWhile isspace cs) else c # collapse_ws cs)"
  by pat_completeness auto
termination
  by (relation "measure length") (auto simp: length_dropWhile_le less_Suc_eq_le)

definition clean_title :: "pystr \<Rightarrow> pystr" where
  "clean_title raw_title = strip (collapse_ws (cut_breadcrumb (cut_image raw_title)))"

text \<open>\<open>re.sub(r'[#?].*$', '', url)\<close>.\<close>

definition clean_url :: "pystr \<Rightarrow> pystr" where
  "clean_url url = takeWhile (\<lambda>c. c \<noteq> 35 \<and> c \<noteq> 63) url"

subsection \<open>The description\<close>

text \<open>
  \<open>re.match(r'^[a-z0-9.-]+\.[a-z]{2,}$', next_line, re.I)\<close>. \<open>domain_tail\<close> is
  \<open>\.[a-z]{2,}$\<close> at the start of a string; \<open>domain_from\<close> holds when, one character of
  the first class being taken already, the rest can be matched: the tail starts here, or
  one more character of the class is taken.
\<close>

definition domain_tail :: "pystr \<Rightarrow> bool" where
  "domain_tail s \<longleftrightarrow>
     (case s of [] \<Rightarrow> False | c # cs \<Rightarrow> c = 46 \<and> 2 \<le> length cs \<and> list_all ci_letter cs)"

fun domain_from :: "pystr \<Rightarrow> bool" where
  "domain_from [] = False"
| "domain_from (c # cs) = (domain_tail (c # cs) \<or> (domain_char c \<and> domain_from cs))"

definition bare_domain :: "pystr \<Rightarrow> bool" where
  "bare_domain s \<longleftrightarrow> (case s of [] \<Rightarrow> False | c # cs \<Rightarrow> domain_char c \<and> domain_from cs)"

text \<open>The test that ends the scan, and the test that skips a line.\<close>

definition stops_scan :: "pystr \<Rightarrow> bool" where
  "stops_scan next_line \<longleftrightarrow> match_result next_line \<noteq> None \<or> startswith next_line (S ''##'')"

definition noise :: "pystr \<Rightarrow> bool" where
  "noise next_line \<longleftrightarrow>
     startswith next_line (S ''['') \<or> startswith next_line (S ''http'')
     \<or> startswith next_line (S ''!['') \<or> startswith next_line (S ''*'')
     \<or> contains (lower next_line) (S ''feedback'')
     \<or> bare_domain next_line
     \<or> length next_line < 30"

text \<open>
  \<open>re.sub(r'_([^_]+)_', r'\1', desc)\<close>: from left to right, an underscore followed by one
  or more characters other than the underscore and a closing underscore is replaced by
  the characters in between; the search goes on after the closing underscore.
\<close>

function strip_emphasis :: "pystr \<Rightarrow> pystr" where
  "strip_emphasis [] = []"
| "strip_emphasis (c # cs) =
     (if c = 95 \<and> takeWhile (\<lambda>x. x \<noteq> 95) cs \<noteq> [] \<and> dropWhile (\<lambda>x. x \<noteq> 95) cs \<noteq> []
      then takeWhile (\<lambda>x. x \<noteq> 95) cs @ strip_emphasis (tl (dropWhile (\<lambda>x. x \<noteq> 95) cs))
      else c # strip_emphasis cs)"
  by pat_completeness auto
termination
proof (relation "measure length")
  show "wf (measure length)" by simp
next
  fix c :: nat and cs :: pystr
  assume "c = 95 \<and> takeWhile (\<lambda>x. x \<noteq> 95) cs \<noteq> [] \<and> dropWhile (\<lambda>x. x \<noteq> 95) cs \<noteq> []"
  have "length (tl (dropWhile (\<lambda>x. x \<noteq> 95) cs)) \<le> length (dropWhile (\<lambda>x. x \<noteq> 95) cs)"
    by simp
  also have "\<dots> \<le> length cs" by (rule length_dropWhile_le)
  finally show "(tl (dropWhile (\<lambda>x. x \<noteq> 95) cs), c # cs) \<in> measure length" by simp
next
  fix c :: nat and cs :: pystr
  show "(cs, c # cs) \<in> measure length" by simp
qed

text \<open>\<open>re.sub(r'\[Read more\].*$', '', desc)\<close>: the text is cut where the marker first occurs.\<close>

fun cut_at :: "pystr \<Rightarrow> pystr \<Rightarrow> pystr" where
  "cut_at marker [] = []"
| "cut_at marker (c # cs) = (if startswith (c # cs) marker then [] else c # cut_at marker cs)"

text \<open>
  \<open>re.sub(r'^[A-Z][a-z]{2} \d{1,2}, \d{4} D ', '', desc)\<close>, where D stands for the dash
  U+2014. \<open>eat\<close> takes one character of a class and \<open>eat_lit\<close> a literal text from the start
  of a string and give what is left. \<open>\d{1,2}\<close> tries two digits before one. \<open>\d\<close> is modelled on the ASCII
  digits.
\<close>

definition eat :: "(nat \<Rightarrow> bool) \<Rightarrow> pystr \<Rightarrow> pystr option" where
  "eat cls s = (case s of [] \<Rightarrow> None | c # cs \<Rightarrow> if cls c then Some cs else None)"

definition eat_lit :: "pystr \<Rightarrow> pystr \<Rightarrow> pystr option" where
  "eat_lit lit s = (if startswith s lit then Some (drop (length lit) s) else None)"

definition is_upper :: "nat \<Rightarrow> bool" where
  "is_upper c \<longleftrightarrow> 65 \<le> c \<and> c \<le> 90"

definition is_lower :: "nat \<Rightarrow> bool" where
  "is_lower c \<longleftrightarrow> 97 \<le> c \<and> c \<le> 122"

text \<open>
  \<open>\d\<close> in a pattern for \<open>str\<close>: the decimal digits of Unicode (category Nd), from the
  same character database.
\<close>

definition decimal_digit_ranges :: "(nat \<times> nat) list" where
  "decimal_digit_ranges =
    [(48, 57), (1632, 1641), (1776, 1785), (1984, 1993), (2406, 2415), (2534, 2543),
     (2662, 2671), (2790, 2799), (2918, 2927), (3046, 3055), (3174, 3183), (3302, 3311),
     (3430, 3439), (3558, 3567), (3664, 3673), (3792, 3801), (3872, 3881), (4160, 4169),
     (4240, 4249), (6112, 6121), (6160, 6169), (6470, 6479), (6608, 6617), (6784, 6793),
     (6800, 6809), (6992, 7001), (7088, 7097), (7232, 7241), (7248, 7257), (42528, 42537),
     (43216, 43225), (43264, 43273), (43472, 43481), (43504, 43513), (43600, 43609),
     (44016, 44025), (65296, 65305), (66720, 66729), (68912, 68921), (69734, 69743),
     (69872, 69881), (69942, 69951), (70096, 70105), (70384, 70393), (70736, 70745),
     (70864, 70873), (71248, 71257), (71360, 71369), (71472, 71481), (71904, 71913),
     (72016, 72025), (72784, 72793), (73040, 73049), (73120, 73129), (92768, 92777),
     (92864, 92873), (93008, 93017), (120782, 120831), (123200, 123209), (123632, 123641),
     (125264, 125273), (130032, 130041)]"

definition is_digit :: "nat \<Rightarrow> bool" where
  "is_digit c \<longleftrightarrow> in_ranges decimal_digit_ranges c"

definition date_rest :: "pystr \<Rightarrow> pystr option" where
  "date_rest s =
     Option.bind (eat_lit (S '', '') s) (\<lambda>s.
     Option.bind (eat is_digit s) (\<lambda>s.
     Option.bind (eat is_digit s) (\<lambda>s.
     Option.bind (eat is_digit s) (\<lambda>s.
     Option.bind (eat is_digit s) (\<lambda>s.
     eat_lit [32, 8212, 32] s)))))"

definition date_stamp :: "pystr \<Rightarrow> pystr option" where
  "date_stamp s =
     Option.bind (eat is_upper s) (\<lambda>s.
     Option.bind (eat is_lower s) (\<lambda>s.
     Option.bind (eat is_lower s) (\<lambda>s.
     Option.bind (eat_lit (S '' '') s) (\<lambda>s.
       (case Option.bind (eat is_digit s) (\<lambda>s. Option.bind (eat is_digit s) date_rest) of
          Some rest \<Rightarrow> Some rest
        | None \<Rightarrow> Option.bind (eat is_digit s) date_rest)))))"

definition strip_date :: "pystr \<Rightarrow> pystr" where
  "strip_date desc = (case date_stamp desc of Some rest \<Rightarrow> rest | None \<Rightarrow> desc)"

text \<open>The clean-up of a description candidate.\<close>

definition clean_desc :: "pystr \<Rightarrow> pystr" where
  "clean_desc next_line =
     strip (strip_date (cut_at (S ''[Read more]'') (strip_emphasis next_line)))"

text \<open>
  The loop \<open>for j in range(i + 1, min(i + 10, len(lines)))\<close>, over the lines it visits:
  \<open>break\<close> at a line that stops the scan, \<open>continue\<close> at noise and at a candidate that is
  too short when cleaned, and \<open>break\<close> with the first description found.
\<close>

fun scan_description :: "pystr list \<Rightarrow> pystr" where
  "scan_description [] = []"
| "scan_description (l # ls) =
     (let next_line = strip l in
      if stops_scan next_line then []
      else if noise next_line then scan_description ls
      else
        (let desc = clean_desc next_line in
         if length desc > 30 then desc else scan_description ls))"

subsection \<open>The parser\<close>

record search_result =
  sr_title :: pystr
  sr_url :: pystr
  sr_description :: pystr

text \<open>
  The \<open>while\<close> loop over the lines, from line \<open>i\<close> on: the first argument is \<open>seen_urls\<close>,
  the second \<open>lines[i:]\<close>, the result what is appended to \<open>results\<close> from there on. The
  description loop visits \<open>lines[i + 1 : min(i + 10, len(lines))]\<close>, the first nine of the
  lines that follow.
\<close>

fun parse_lines :: "pystr set \<Rightarrow> pystr list \<Rightarrow> search_result list" where
  "parse_lines seen_urls [] = []"
| "parse_lines seen_urls (line # rest) =
     (case match_result line of
        None \<Rightarrow> parse_lines seen_urls rest
      | Some (raw_title, url) \<Rightarrow>
          (let title = clean_title raw_title;
               clean = clean_url url
           in if should_filter url \<or> clean \<in> seen_urls \<or> title = []
              then parse_lines seen_urls rest
              else \<lparr> sr_title = title, sr_url = clean,
                     sr_description = scan_description (take 9 rest) \<rparr>
                   # parse_lines (insert clean seen_urls) rest))"

definition parse_results :: "pystr \<Rightarrow> search_result list" where
  "parse_results content = parse_lines {} (split_lines content)"

section \<open>Properties of the channel video lister\<close>

subsection \<open>Decimal formatting\<close>

lemma digits_lt10: "n < 10 \<Longrightarrow> digits n = [48 + n]"
  by (simp add: digits.simps)

lemma digits_lt100: "10 \<le> n \<Longrightarrow> n < 100 \<Longrightarrow> digits n = [48 + n div 10, 48 + n mod 10]"
  by (subst digits.simps) (simp add: digits_lt10)

lemma fmt_02d_two_digits:
  assumes "0 \<le> i" and "i < 100"
  shows "fmt_02d i = [48 + nat i div 10, 48 + nat i mod 10]"
proof (cases "nat i < 10")
  case True
  then show ?thesis using assms by (simp add: fmt_02d_def digits_lt10 numeral_2_eq_2)
next
  case False
  then have "10 \<le> nat i" "nat i < 100" using assms by auto
  then show ?thesis using assms by (simp add: fmt_02d_def digits_lt100)
qed

lemma format_duration_hours:
  assumes "3600 \<le> n"
  shows "format_duration (Some n) =
           digits (nat (n div 3600)) @ S '':''
           @ [48 + nat (n mod 3600 div 60) div 10, 48 + nat (n mod 3600 div 60) mod 10] @ S '':''
           @ [48 + nat (n mod 60) div 10, 48 + nat (n mod 60) mod 10]"
proof -
  have h: "0 < n div 3600" using assms by (simp add: pos_imp_zdiv_pos_iff)
  have b: "0 \<le> n mod 3600" "n mod 3600 \<le> 3599"
    using pos_mod_bound [of 3600 n] by simp_all
  have m: "0 \<le> n mod 3600 div 60" "n mod 3600 div 60 < 100"
    using b(1) zdiv_mono1 [OF b(2), of 60] by (simp_all add: pos_imp_zdiv_nonneg_iff)
  have s: "0 \<le> n mod 60" "n mod 60 < 100"
    using pos_mod_bound [of 60 n] by simp_all
  show ?thesis
    using assms h
    by (simp add: format_duration_def Let_def str_int_def fmt_02d_two_digits [OF m]
        fmt_02d_two_digits [OF s])
qed

lemma format_duration_minutes:
  assumes "n < 3600" and "n \<noteq> 0"
  shows "format_duration (Some n) =
           str_int (n mod 3600 div 60) @ S '':''
           @ [48 + nat (n mod 60) div 10, 48 + nat (n mod 60) mod 10]"
proof -
  have h: "\<not> 0 < n div 3600" using assms by (simp add: pos_imp_zdiv_pos_iff)
  have s: "0 \<le> n mod 60" "n mod 60 < 100"
    using pos_mod_bound [of 60 n] by simp_all
  show ?thesis
    using assms h by (simp add: format_duration_def Let_def fmt_02d_two_digits [OF s])
qed

text \<open>
  C10. A video record has integer duration and view count whatever the entry holds: a
  missing or null duration (or the duration 0) gives duration 0 and the text "0:00", a
  missing or null view count gives 0 views; a duration of at least one hour is written
  H:MM:SS and a non-zero duration below one hour M:SS, the minutes and seconds fields being
  two decimal digits each, zero-padded.
\<close>

theorem mk_video_duration_views:
  "(e_duration e = Missing \<or> e_duration e = Null \<or> e_duration e = Val 0 \<longrightarrow>
      v_duration (mk_video wd i e) = 0 \<and> v_duration_human (mk_video wd i e) = S ''0:00'')
   \<and> (e_view_count e = Missing \<or> e_view_count e = Null \<longrightarrow> v_views (mk_video wd i e) = 0)
   \<and> (e_view_count e = Val k \<longrightarrow> v_views (mk_video wd i e) = k)
   \<and> (e_duration e = Val n \<longrightarrow> v_duration (mk_video wd i e) = n)
   \<and> (e_duration e = Val n \<and> 3600 \<le> n \<longrightarrow>
        v_duration_human (mk_video wd i e) =
          digits (nat (n div 3600)) @ S '':''
          @ [48 + nat (n mod 3600 div 60) div 10, 48 + nat (n mod 3600 div 60) mod 10] @ S '':''
          @ [48 + nat (n mod 60) div 10, 48 + nat (n mod 60) mod 10])
   \<and> (e_duration e = Val n \<and> 0 < n \<and> n < 3600 \<longrightarrow>
        v_duration_human (mk_video wd i e) =
          digits (nat (n div 60)) @ S '':''
          @ [48 + nat (n mod 60) div 10, 48 + nat (n mod 60) mod 10])"
proof -
  have zero: "e_duration e = Missing \<or> e_duration e = Null \<or> e_duration e = Val 0 \<Longrightarrow>
      v_duration (mk_video wd i e) = 0 \<and> v_duration_human (mk_video wd i e) = S ''0:00''"
    by (auto simp: mk_video_def or_zero_def format_duration_def)
  have views0: "e_view_count e = Missing \<or> e_view_count e = Null \<Longrightarrow>
      v_views (mk_video wd i e) = 0"
    by (auto simp: mk_video_def or_zero_def)
  have views: "e_view_count e = Val k \<Longrightarrow> v_views (mk_video wd i e) = k"
    by (simp add: mk_video_def or_zero_def)
  have dur: "e_duration e = Val n \<Longrightarrow> v_duration (mk_video wd i e) = n"
    by (simp add: mk_video_def or_zero_def)
  have hours: "e_duration e = Val n \<and> 3600 \<le> n \<Longrightarrow>
      v_duration_human (mk_video wd i e) =
          digits (nat (n div 3600)) @ S '':''
          @ [48 + nat (n mod 3600 div 60) div 10, 48 + nat (n mod 3600 div 60) mod 10] @ S '':''
          @ [48 + nat (n mod 60) div 10, 48 + nat (n mod 60) mod 10]"
    using format_duration_hours [of n] by (simp add: mk_video_def)
  have minutes: "e_duration e = Val n \<and> 0 < n \<and> n < 3600 \<Longrightarrow>
      v_duration_human (mk_video wd i e) =
          digits (nat (n div 60)) @ S '':''
          @ [48 + nat (n mod 60) div 10, 48 + nat (n mod 60) mod 10]"
  proof -
    assume a: "e_duration e = Val n \<and> 0 < n \<and> n < 3600"
    then have "n mod 3600 = n" "0 \<le> n div 60"
      by (simp_all add: pos_imp_zdiv_nonneg_iff)
    then show ?thesis
      using a format_duration_minutes [of n] by (simp add: mk_video_def str_int_def)
  qed
  show ?thesis
    using zero views0 views dur hours minutes by blast
qed

text \<open>The theorem at an entry of 3725 seconds with no view count: "1:02:05" and 0 views.\<close>

theorem mk_video_duration_views_witness:
  "v_duration_human (mk_video False 0 ((views_entry 7)\<lparr>e_duration := Val 3725, e_view_count := Null\<rparr>))
     = S ''1:02:05''
   \<and> v_views (mk_video False 0 ((views_entry 7)\<lparr>e_duration := Val 3725, e_view_count := Null\<rparr>)) = 0
   \<and> v_duration (mk_video False 0 ((views_entry 7)\<lparr>e_duration := Val 3725, e_view_count := Null\<rparr>)) = 3725"
  using mk_video_duration_views
    [of "(views_entry 7)\<lparr>e_duration := Val 3725, e_view_count := Null\<rparr>" False 0 7 3725]
  by (simp add: views_entry_def digits_lt10)

subsection \<open>Sorting\<close>

lemma py_sort_stable:
  "filter (\<lambda>y. key y = k) (py_sort key r xs) = filter (\<lambda>y. key y = k) xs"
  by (simp add: py_sort_def sort_key_stable rev_filter [symmetric])

lemma py_sort_mset: "mset (py_sort key r xs) = mset xs"
  by (simp add: py_sort_def)

lemma py_sort_desc: "sorted (rev (map key (py_sort key True xs)))"
  by (simp add: py_sort_def rev_map [symmetric])

lemma py_sort_asc: "sorted (map key (py_sort key False xs))"
  by (simp add: py_sort_def)

text \<open>
  C1, as the code has it. With the sort key "views" the videos are put in descending order
  of view count by a stable sort: the result is a rearrangement of the input, its view
  counts read backwards are ascending, and the videos of any one view count keep their
  relative order. For entries with view counts 10, 5, 20 the listing has the view counts
  20, 10, 5.
\<close>

theorem sort_views_stable_descending:
  "sorted (rev (map v_views (sort_videos (S ''views'') vs)))
   \<and> mset (sort_videos (S ''views'') vs) = mset vs
   \<and> (\<forall>k. filter (\<lambda>v. v_views v = k) (sort_videos (S ''views'') vs)
            = filter (\<lambda>v. v_views v = k) vs)
   \<and> map_sum id (map v_views \<circ> l_videos)
        (get_channel_videos
           (listing_of [Some (views_entry 10), Some (views_entry 5), Some (views_entry 20)])
           None (S ''views'') None False)
      = Inr [20, 10, 5]"
proof -
  have "map_sum id (map v_views \<circ> l_videos)
        (get_channel_videos
           (listing_of [Some (views_entry 10), Some (views_entry 5), Some (views_entry 20)])
           None (S ''views'') None False)
      = Inr [20, 10, 5]"
    by code_simp
  then show ?thesis
    by (simp add: sort_videos_def py_sort_stable py_sort_mset py_sort_desc)
qed

text \<open>The order 20, 5, 10 is not what the sort returns on the view counts 10, 5, 20.\<close>

theorem sort_views_example_counterexample:
  "map_sum id (map v_views \<circ> l_videos)
        (get_channel_videos
           (listing_of [Some (views_entry 10), Some (views_entry 5), Some (views_entry 20)])
           None (S ''views'') None False)
      \<noteq> Inr [20, 5, 10]"
  by code_simp

subsection \<open>Indexes\<close>

lemma process_entries_set:
  "v \<in> set (process_entries wd i es) \<Longrightarrow>
     \<exists>j e. j < length es \<and> es ! j = Some e \<and> v = mk_video wd (i + j) e"
proof (induction es arbitrary: i)
  case Nil
  then show ?case by simp
next
  case (Cons x es)
  show ?case
  proof (cases x)
    case None
    with Cons.prems have "v \<in> set (process_entries wd (i + 1) es)" by simp
    from Cons.IH [OF this] obtain j e where
      "j < length es" "es ! j = Some e" "v = mk_video wd (i + 1 + j) e" by blast
    then have "Suc j < length (x # es) \<and> (x # es) ! Suc j = Some e \<and> v = mk_video wd (i + Suc j) e"
      by simp
    then show ?thesis by blast
  next
    case (Some a)
    with Cons.prems have "v = mk_video wd i a \<or> v \<in> set (process_entries wd (i + 1) es)"
      by simp
    then show ?thesis
    proof
      assume "v = mk_video wd i a"
      then have "0 < length (x # es) \<and> (x # es) ! 0 = Some a \<and> v = mk_video wd (i + 0) a"
        using Some by simp
      then show ?thesis by blast
    next
      assume "v \<in> set (process_entries wd (i + 1) es)"
      from Cons.IH [OF this] obtain j e where
        "j < length es" "es ! j = Some e" "v = mk_video wd (i + 1 + j) e" by blast
      then have "Suc j < length (x # es) \<and> (x # es) ! Suc j = Some e \<and> v = mk_video wd (i + Suc j) e"
        by simp
      then show ?thesis by blast
    qed
  qed
qed

lemma process_entries_no_None:
  "None \<notin> set es \<Longrightarrow> length (process_entries wd i es) = length es \<and>
     (\<forall>k < length es. v_index (process_entries wd i es ! k) = i + k + 1)"
proof (induction es arbitrary: i)
  case Nil
  then show ?case by simp
next
  case (Cons x es)
  then obtain e where x: "x = Some e" by (cases x) auto
  from Cons have ih: "length (process_entries wd (i + 1) es) = length es"
    "\<And>k. k < length es \<Longrightarrow> v_index (process_entries wd (i + 1) es ! k) = i + 1 + k + 1"
    by auto
  show ?case
  proof (intro conjI allI impI)
    show "length (process_entries wd i (x # es)) = length (x # es)" using x ih by simp
  next
    fix k assume "k < length (x # es)"
    then show "v_index (process_entries wd i (x # es) ! k) = i + k + 1"
      using x ih by (cases k) (simp_all add: mk_video_def)
  qed
qed

lemma search_filter_Inr:
  "search_filter s vs = Inr r \<Longrightarrow> r = filter (\<lambda>v. matches_search s v = Inr True) vs"
  by (induction vs arbitrary: r) (auto split: sum.splits if_splits)

lemma filter_videos_subset: "filter_videos search vs = Inr r \<Longrightarrow> set r \<subseteq> set vs"
  by (auto simp: filter_videos_def dest: search_filter_Inr split: if_splits)

lemma filter_videos_off: "\<not> truthy search \<Longrightarrow> filter_videos search vs = Inr vs"
  by (simp add: filter_videos_def)

lemma mset_sort_videos: "mset (sort_videos sb vs) = mset vs"
  by (simp add: sort_videos_def py_sort_mset)

lemma set_sort_videos: "set (sort_videos sb vs) = set vs"
  using mset_sort_videos [of sb vs] by (metis set_mset_mset)

lemma length_sort_videos: "length (sort_videos sb vs) = length vs"
  using mset_sort_videos [of sb vs] by (metis size_mset)

lemma set_apply_limit: "set (apply_limit l vs) \<subseteq> set vs"
  by (auto simp: apply_limit_def dest: in_set_takeD split: option.splits)

lemma get_channel_videos_Inr:
  assumes "get_channel_videos (Returns (Some nfo)) limit sort_by search wd = Inr r"
    and "i_entries nfo = Val es"
  shows "\<exists>vs. es \<noteq> [] \<and> filter_videos search (process_entries wd 0 es) = Inr vs
           \<and> l_videos r = apply_limit limit (sort_videos sort_by vs)
           \<and> l_returned_count r = length (l_videos r) \<and> l_total_count r = length es"
  using assms
  by (auto simp: get_channel_videos_def Let_def split: if_splits sum.splits)

lemma get_channel_videos_returns:
  assumes "i_entries nfo = Val es" and "es \<noteq> []"
    and "filter_videos search (process_entries wd 0 es) = Inr vs"
  shows "\<exists>r. get_channel_videos (Returns (Some nfo)) limit sort_by search wd = Inr r
           \<and> l_videos r = apply_limit limit (sort_videos sort_by vs)
           \<and> l_returned_count r = length (l_videos r)"
  using assms
  by (simp add: get_channel_videos_def Let_def)

text \<open>
  C2, as the code has it. The index of a returned video is the 1-based position of its
  entry in the fetched listing (entries that are \<open>None\<close> are counted): it is set while the
  entries are read, before filtering, sorting and limiting, and these keep it. So the k-th
  video of the output has index k when no entry is \<open>None\<close>, no search term is given and the
  sort key is none of views, duration, duration_asc.
\<close>

theorem video_index_is_entry_position:
  assumes "get_channel_videos (Returns (Some nfo)) limit sort_by search wd = Inr r"
    and "i_entries nfo = Val es"
  shows "(\<forall>v \<in> set (l_videos r).
            \<exists>j e. j < length es \<and> es ! j = Some e \<and> v = mk_video wd j e \<and> v_index v = j + 1)
         \<and> (None \<notin> set es \<and> \<not> truthy search
              \<and> sort_by \<noteq> S ''views'' \<and> sort_by \<noteq> S ''duration'' \<and> sort_by \<noteq> S ''duration_asc''
              \<longrightarrow> (\<forall>k < length (l_videos r). v_index (l_videos r ! k) = k + 1))"
proof -
  from get_channel_videos_Inr [OF assms] obtain vs where
    vs: "filter_videos search (process_entries wd 0 es) = Inr vs"
    and r: "l_videos r = apply_limit limit (sort_videos sort_by vs)"
    by blast
  have sub: "set (l_videos r) \<subseteq> set (process_entries wd 0 es)"
    using set_apply_limit [of limit "sort_videos sort_by vs"] filter_videos_subset [OF vs]
    by (auto simp: r set_sort_videos)
  have first: "\<forall>v \<in> set (l_videos r).
            \<exists>j e. j < length es \<and> es ! j = Some e \<and> v = mk_video wd j e \<and> v_index v = j + 1"
  proof
    fix v assume "v \<in> set (l_videos r)"
    then have "v \<in> set (process_entries wd 0 es)" using sub by blast
    from process_entries_set [OF this] obtain j e where
      "j < length es" "es ! j = Some e" "v = mk_video wd (0 + j) e" by blast
    then have "j < length es \<and> es ! j = Some e \<and> v = mk_video wd j e \<and> v_index v = j + 1"
      by (simp add: mk_video_def)
    then show "\<exists>j e. j < length es \<and> es ! j = Some e \<and> v = mk_video wd j e \<and> v_index v = j + 1"
      by blast
  qed
  have second: "\<forall>k < length (l_videos r). v_index (l_videos r ! k) = k + 1"
    if a: "None \<notin> set es \<and> \<not> truthy search
              \<and> sort_by \<noteq> S ''views'' \<and> sort_by \<noteq> S ''duration'' \<and> sort_by \<noteq> S ''duration_asc''"
  proof (intro allI impI)
    fix k assume k: "k < length (l_videos r)"
    have "vs = process_entries wd 0 es" using vs a filter_videos_off [of search] by simp
    moreover have "sort_videos sort_by vs = vs" using a by (simp add: sort_videos_def)
    ultimately have l: "l_videos r = apply_limit limit (process_entries wd 0 es)"
      using r by simp
    have "length (l_videos r) \<le> length (process_entries wd 0 es)"
      "l_videos r ! k = process_entries wd 0 es ! k"
      using k by (auto simp: l apply_limit_def split: option.splits)
    then show "v_index (l_videos r ! k) = k + 1"
      using process_entries_no_None [of es wd 0] a k by simp
  qed
  show ?thesis using first second by blast
qed


text \<open>Three entries, limit 2, default order: the indexes are 1 and 2.\<close>

theorem video_index_is_entry_position_witness:
  "map_sum id (map v_index \<circ> l_videos)
     (get_channel_videos
       (listing_of [Some (views_entry 10), Some (views_entry 5), Some (views_entry 20)])
       (Some 2) (S ''recency'') None False)
   = Inr [1, 2]"
proof -
  let ?es = "[Some (views_entry 10), Some (views_entry 5), Some (views_entry 20)]"
  let ?nfo = "\<lparr> i_channel = Missing, i_uploader = Missing, i_channel_id = Missing,
                     i_uploader_id = Missing, i_entries = Val ?es \<rparr>"
  let ?g = "get_channel_videos (Returns (Some ?nfo)) (Some 2) (S ''recency'') None False"
  let ?l = "l_videos (projr ?g)"
  have g: "?g = Inr (projr ?g)"
    by (simp add: get_channel_videos_def filter_videos_def truthy_def Let_def)
  have e: "i_entries ?nfo = Val ?es" by simp
  have len: "length ?l = 2"
    by (simp add: get_channel_videos_def filter_videos_def truthy_def Let_def sort_videos_def
        apply_limit_def)
  have all: "\<forall>k < length ?l. v_index (?l ! k) = k + 1"
    using video_index_is_entry_position [OF g e]
    by (simp add: truthy_def)
  have nth: "v_index (?l ! 0) = 1" "v_index (?l ! 1) = 2" using all len by simp_all
  obtain a b where ab: "?l = [a, b]"
    using len by (auto simp: numeral_2_eq_2 length_Suc_conv)
  have "map v_index ?l = [1, 2]"
    using nth unfolding ab by simp
  then have "map_sum id (map v_index \<circ> l_videos) ?g = Inr [1, 2]"
    using g by (metis comp_apply id_apply map_sum.simps(2))
  then show ?thesis by (simp only: listing_of_def)
qed

text \<open>Sorted by views, the entries with view counts 10, 5, 20 come back with indexes 3, 1, 2.\<close>

theorem video_index_counterexample:
  "map_sum id (map v_index \<circ> l_videos)
        (get_channel_videos
           (listing_of [Some (views_entry 10), Some (views_entry 5), Some (views_entry 20)])
           None (S ''views'') None False)
      = Inr [3, 1, 2]"
  by code_simp

subsection \<open>Limiting\<close>

text \<open>
  C8, as the code has it. The limit is applied to the filtered and sorted sequence. In
  \<open>get_channel_videos\<close> a limit that is unset (\<open>None\<close>) or zero returns the whole sequence
  and a limit N > 0 returns its first min(N, available) videos. On the command line
  \<open>--limit\<close> with a value of zero or less returns the whole sequence and a value N > 0 the
  first N; when the option is left out its default, 20, is the limit.
\<close>

theorem limit_after_filter_and_sort:
  assumes "i_entries nfo = Val es" and "es \<noteq> []"
    and "filter_videos search (process_entries wd 0 es) = Inr vs"
  shows "(limit = None \<or> limit = Some 0 \<longrightarrow>
            (\<exists>r. get_channel_videos (Returns (Some nfo)) limit sort_by search wd = Inr r
                 \<and> l_videos r = sort_videos sort_by vs))
         \<and> (0 < n \<longrightarrow>
            (\<exists>r. get_channel_videos (Returns (Some nfo)) (Some n) sort_by search wd = Inr r
                 \<and> l_videos r = take (nat n) (sort_videos sort_by vs)
                 \<and> length (l_videos r) = min (nat n) (length vs)))
         \<and> (m \<le> 0 \<longrightarrow>
            (\<exists>r. main_get_channel_videos (Some m) (Returns (Some nfo)) sort_by search wd = Inr r
                 \<and> l_videos r = sort_videos sort_by vs))
         \<and> (0 < n \<longrightarrow>
            (\<exists>r. main_get_channel_videos (Some n) (Returns (Some nfo)) sort_by search wd = Inr r
                 \<and> l_videos r = take (nat n) (sort_videos sort_by vs)))
         \<and> (\<exists>r. main_get_channel_videos None (Returns (Some nfo)) sort_by search wd = Inr r
                 \<and> l_videos r = take 20 (sort_videos sort_by vs))"
proof -
  have gen: "\<exists>r. get_channel_videos (Returns (Some nfo)) l sort_by search wd = Inr r
           \<and> l_videos r = apply_limit l (sort_videos sort_by vs)" for l
    using get_channel_videos_returns [OF assms, of l sort_by] by blast
  have unlimited: "limit = None \<or> limit = Some 0 \<Longrightarrow>
            (\<exists>r. get_channel_videos (Returns (Some nfo)) limit sort_by search wd = Inr r
                 \<and> l_videos r = sort_videos sort_by vs)"
    using gen [of limit] by (auto simp: apply_limit_def)
  have limited: "0 < n \<Longrightarrow>
            (\<exists>r. get_channel_videos (Returns (Some nfo)) (Some n) sort_by search wd = Inr r
                 \<and> l_videos r = take (nat n) (sort_videos sort_by vs)
                 \<and> length (l_videos r) = min (nat n) (length vs))"
    using gen [of "Some n"] by (auto simp: apply_limit_def length_sort_videos)
  have main0: "m \<le> 0 \<Longrightarrow>
            (\<exists>r. main_get_channel_videos (Some m) (Returns (Some nfo)) sort_by search wd = Inr r
                 \<and> l_videos r = sort_videos sort_by vs)"
    using gen [of None]
    by (simp add: main_get_channel_videos_def main_limit_def args_limit_def apply_limit_def)
  have mainn: "0 < n \<Longrightarrow>
            (\<exists>r. main_get_channel_videos (Some n) (Returns (Some nfo)) sort_by search wd = Inr r
                 \<and> l_videos r = take (nat n) (sort_videos sort_by vs))"
    using gen [of "Some n"]
    by (simp add: main_get_channel_videos_def main_limit_def args_limit_def apply_limit_def)
  have maind: "\<exists>r. main_get_channel_videos None (Returns (Some nfo)) sort_by search wd = Inr r
                 \<and> l_videos r = take 20 (sort_videos sort_by vs)"
    using gen [of "Some 20"]
    by (simp add: main_get_channel_videos_def main_limit_def args_limit_def apply_limit_def)
  show ?thesis
    using unlimited limited main0 mainn maind by blast
qed

text \<open>View counts 10, 5, 20, sorted by views, limit 2: the view counts 20 and 10.\<close>

theorem limit_after_filter_and_sort_witness:
  "map_sum id (map v_views \<circ> l_videos)
        (get_channel_videos
           (listing_of [Some (views_entry 10), Some (views_entry 5), Some (views_entry 20)])
           (Some 2) (S ''views'') None False)
      = Inr [20, 10]"
proof -
  let ?es = "[Some (views_entry 10), Some (views_entry 5), Some (views_entry 20)]"
  let ?nfo = "\<lparr> i_channel = Missing, i_uploader = Missing, i_channel_id = Missing,
                     i_uploader_id = Missing, i_entries = Val ?es \<rparr>"
  have e: "i_entries ?nfo = Val ?es" "?es \<noteq> []" by simp_all
  have f: "filter_videos None (process_entries False 0 ?es) = Inr (process_entries False 0 ?es)"
    by (simp add: filter_videos_def truthy_def)
  have s: "map v_views (take 2 (sort_videos (S ''views'') (process_entries False 0 ?es))) = [20, 10]"
    by code_simp
  show ?thesis
    using limit_after_filter_and_sort [OF e f, where limit = None and n = 2 and m = 0
        and sort_by = "S ''views''"] s
    by (auto simp: listing_of_def)
qed

text \<open>A run without \<open>--limit\<close> on a channel of 21 videos returns 20 of them.\<close>

theorem limit_unset_counterexample:
  "map_sum id (\<lambda>r. (l_total_count r, length (l_videos r)))
     (main_get_channel_videos None (listing_of (replicate 21 (Some (views_entry 1))))
        (S ''recency'') None False)
   = Inr (21, 20)"
  by code_simp

section \<open>Properties of the transcript extractor\<close>

subsection \<open>Strings and searching\<close>

lemma startswith_iff: "startswith s p \<longleftrightarrow> (\<exists>t. s = p @ t)"
  by (induction s p rule: startswith.induct) auto

lemma startswith_append [simp]: "startswith (p @ t) p"
  by (simp add: startswith_iff)

lemma startswith_drop: "startswith s p \<Longrightarrow> n = length p \<Longrightarrow> s = p @ drop n s"
  by (auto simp: startswith_iff)

lemma contains_iff: "contains s sub \<longleftrightarrow> (\<exists>pre post. s = pre @ sub @ post)"
proof (induction s)
  case Nil
  then show ?case by auto
next
  case (Cons c cs)
  show ?case
  proof
    assume "contains (c # cs) sub"
    then consider "startswith (c # cs) sub" | "contains cs sub" by auto
    then show "\<exists>pre post. c # cs = pre @ sub @ post"
    proof cases
      case 1
      then obtain t where "c # cs = sub @ t" by (auto simp: startswith_iff)
      then have "c # cs = [] @ sub @ t" by simp
      then show ?thesis by blast
    next
      case 2
      then obtain pre post where "cs = pre @ sub @ post" using Cons.IH by blast
      then have "c # cs = (c # pre) @ sub @ post" by simp
      then show ?thesis by blast
    qed
  next
    assume "\<exists>pre post. c # cs = pre @ sub @ post"
    then obtain pre post where eq: "c # cs = pre @ sub @ post" by blast
    show "contains (c # cs) sub"
    proof (cases pre)
      case Nil
      then have "startswith (c # cs) sub" using eq by (auto simp: startswith_iff)
      then show ?thesis by simp
    next
      case (Cons a pre')
      then have "cs = pre' @ sub @ post" using eq by simp
      then have "contains cs sub" using Cons.IH by blast
      then show ?thesis by simp
    qed
  qed
qed




subsection \<open>Video-ID extraction\<close>












subsection \<open>The merged caption map and the default language\<close>

lemma fold_update_keys:
  "distinct (map fst xs) \<Longrightarrow>
     map fst (fold (\<lambda>(k, v) d. AList.update k v d) xs d)
       = map fst d @ filter (\<lambda>k. k \<notin> set (map fst d)) (map fst xs)"
proof (induction xs arbitrary: d)
  case Nil
  then show ?case by simp
next
  case (Cons x xs)
  obtain k v where x: "x = (k, v)" by (cases x)
  have k: "k \<notin> set (map fst xs)" and d: "distinct (map fst xs)" using Cons.prems x by auto
  have f: "filter (\<lambda>k'. k' \<noteq> k \<and> k' \<notin> fst ` set d) (map fst xs)
             = filter (\<lambda>k'. k' \<notin> fst ` set d) (map fst xs)"
    using k by (intro filter_cong) auto
  show ?case
    using Cons.IH [OF d, of "AList.update k v d"] f
    by (auto simp: x update_keys)
qed

lemma fold_update_map_of:
  "distinct (map fst xs) \<Longrightarrow>
     map_of (fold (\<lambda>(k, v) d. AList.update k v d) xs d) = map_of d ++ map_of xs"
proof (induction xs arbitrary: d)
  case Nil
  then show ?case by simp
next
  case (Cons x xs)
  obtain k v where x: "x = (k, v)" by (cases x)
  have k: "map_of xs k = None" and d: "distinct (map fst xs)"
    using Cons.prems x by (auto simp: map_of_eq_None_iff)
  show ?case
    using Cons.IH [OF d, of "AList.update k v d"] k
    by (auto simp: x update_conv' fun_eq_iff map_add_def split: option.splits)
qed

lemma dict_merge_keys:
  assumes "distinct (map fst a)" and "distinct (map fst b)"
  shows "map fst (dict_merge a b) = map fst a @ filter (\<lambda>k. k \<notin> set (map fst a)) (map fst b)"
proof -
  have "map fst (fold (\<lambda>(k, v) d. AList.update k v d) a []) = map fst a"
    using fold_update_keys [OF assms(1), of "[]"] by simp
  then show ?thesis
    using fold_update_keys [OF assms(2), of "fold (\<lambda>(k, v) d. AList.update k v d) a []"]
    by (simp add: dict_merge_def)
qed

lemma dict_merge_map_of:
  assumes "distinct (map fst a)" and "distinct (map fst b)"
  shows "map_of (dict_merge a b) = map_of a ++ map_of b"
proof -
  have "map_of (fold (\<lambda>(k, v) d. AList.update k v d) a []) = map_of a"
    using fold_update_map_of [OF assms(1), of "[]"] by simp
  then show ?thesis
    using fold_update_map_of [OF assms(2), of "fold (\<lambda>(k, v) d. AList.update k v d) a []"]
    by (simp add: dict_merge_def)
qed

lemma lower_cp_nonempty: "lower_cp c \<noteq> []"
  by (simp add: lower_cp_def split: option.splits prod.splits)

lemma lower_from_Nil_iff: "lower_from before s = [] \<longleftrightarrow> s = []"
  by (cases s) (simp_all add: lower_cp_nonempty)

lemma lower_Nil_iff: "lower s = [] \<longleftrightarrow> s = []"
  by (simp add: lower_def lower_from_Nil_iff)

lemma get_transcript_selected:
  assumes "get_default (vi_automatic_captions nfo) [] = Some a"
    and "get_default (vi_subtitles nfo) [] = Some s"
    and "dict_merge a s \<noteq> []"
    and "select_language (dict_merge a s)
           (or_else (get (vi_language nfo)) (get (vi_original_language nfo))) preferred = Inr lang"
    and "map_of (dict_merge a s) lang = Some caps"
  shows "get_transcript nfo preferred =
           (case select_caption caps of
              Inl e \<Rightarrow> Inl e
            | Inr (u, f) \<Rightarrow>
                Inr \<lparr> s_language = lang, s_available_languages = map fst (dict_merge a s),
                      s_caption_url = u, s_caption_format = f \<rparr>)"
  using assms by (simp add: get_transcript_def Let_def split: sum.splits)

lemma select_language_default:
  assumes "m \<noteq> []"
  shows "select_language m (or_else (get lng) (get orig)) None =
     Inr (let keys = map fst m;
              original = (case orig of Val l \<Rightarrow> Some l | _ \<Rightarrow> None);
              declared = (case lng of Val l \<Rightarrow> if l = [] then original else Some l
                          | _ \<Rightarrow> original);
              fallback = (if S ''en'' \<in> set keys then S ''en''
                          else if S ''en-US'' \<in> set keys then S ''en-US''
                          else if S ''en-GB'' \<in> set keys then S ''en-GB''
                          else hd keys)
          in case declared of
               Some d \<Rightarrow> if d \<noteq> [] \<and> d \<in> set keys then d else fallback
             | None \<Rightarrow> fallback)"
proof -
  obtain k v rest where m: "m = (k, v) # rest" using assms by (cases m) auto
  show ?thesis
    unfolding m
    by (cases lng; cases orig)
      (auto simp: select_language_def or_else_def truthy_def has_key_def Let_def)
qed

lemma default_language_is_key:
  assumes "keys \<noteq> []"
  shows "(let fallback = (if S ''en'' \<in> set keys then S ''en''
                          else if S ''en-US'' \<in> set keys then S ''en-US''
                          else if S ''en-GB'' \<in> set keys then S ''en-GB''
                          else hd keys)
          in case declared of
               Some d \<Rightarrow> if d \<noteq> [] \<and> d \<in> set keys then d else fallback
             | None \<Rightarrow> fallback) \<in> set keys"
  using assms by (auto simp: Let_def split: option.splits)

text \<open>
  C7. The caption map is the merge of the automatic and the manual caption maps: a key of
  the manual map has the manual value, any other key the automatic value, and the keys
  come in the order of the automatic map followed by the new keys of the manual map. With
  no preferred language, and captions present, \<open>get_transcript\<close> works on the tracks of
  this language: the declared original language (the field \<open>language\<close>, or
  \<open>original_language\<close> when \<open>language\<close> is missing, null or empty) if it is not empty and a
  key of the merged map; else the first of en, en-US, en-GB that is a key; else the first
  key of the map.
\<close>

theorem merged_captions_default_language:
  assumes "distinct (map fst a)" and "distinct (map fst s)"
    and "get_default (vi_automatic_captions nfo) [] = Some a"
    and "get_default (vi_subtitles nfo) [] = Some s"
  shows "map_of (dict_merge a s) k = (case map_of s k of Some v \<Rightarrow> Some v | None \<Rightarrow> map_of a k)
     \<and> map fst (dict_merge a s) = map fst a @ filter (\<lambda>k. k \<notin> set (map fst a)) (map fst s)
     \<and> (dict_merge a s \<noteq> [] \<longrightarrow>
         (let keys = map fst (dict_merge a s);
              original = (case vi_original_language nfo of Val l \<Rightarrow> Some l | _ \<Rightarrow> None);
              declared = (case vi_language nfo of
                            Val l \<Rightarrow> if l = [] then original else Some l
                          | _ \<Rightarrow> original);
              fallback = (if S ''en'' \<in> set keys then S ''en''
                          else if S ''en-US'' \<in> set keys then S ''en-US''
                          else if S ''en-GB'' \<in> set keys then S ''en-GB''
                          else hd keys);
              chosen = (case declared of
                          Some d \<Rightarrow> if d \<noteq> [] \<and> d \<in> set keys then d else fallback
                        | None \<Rightarrow> fallback)
          in \<exists>caps. map_of (dict_merge a s) chosen = Some caps
               \<and> get_transcript nfo None =
                   (case select_caption caps of
                      Inl e \<Rightarrow> Inl e
                    | Inr (u, f) \<Rightarrow>
                        Inr \<lparr> s_language = chosen, s_available_languages = keys,
                              s_caption_url = u, s_caption_format = f \<rparr>)))"
proof (intro conjI impI)
  show "map_of (dict_merge a s) k = (case map_of s k of Some v \<Rightarrow> Some v | None \<Rightarrow> map_of a k)"
    by (simp add: dict_merge_map_of [OF assms(1,2)] map_add_def)
next
  show "map fst (dict_merge a s) = map fst a @ filter (\<lambda>k. k \<notin> set (map fst a)) (map fst s)"
    by (rule dict_merge_keys [OF assms(1,2)])
next
  assume ne: "dict_merge a s \<noteq> []"
  let ?m = "dict_merge a s"
  define chosen where "chosen =
         (let keys = map fst ?m;
              original = (case vi_original_language nfo of Val l \<Rightarrow> Some l | _ \<Rightarrow> None);
              declared = (case vi_language nfo of
                            Val l \<Rightarrow> if l = [] then original else Some l
                          | _ \<Rightarrow> original);
              fallback = (if S ''en'' \<in> set keys then S ''en''
                          else if S ''en-US'' \<in> set keys then S ''en-US''
                          else if S ''en-GB'' \<in> set keys then S ''en-GB''
                          else hd keys)
          in case declared of
               Some d \<Rightarrow> if d \<noteq> [] \<and> d \<in> set keys then d else fallback
             | None \<Rightarrow> fallback)"
  have sl: "select_language ?m
              (or_else (get (vi_language nfo)) (get (vi_original_language nfo))) None = Inr chosen"
    unfolding chosen_def by (rule select_language_default [OF ne])
  have "map fst ?m \<noteq> []" using ne by simp
  then have "chosen \<in> set (map fst ?m)"
    unfolding chosen_def Let_def using default_language_is_key [unfolded Let_def] by blast
  then obtain caps where caps: "map_of ?m chosen = Some caps"
    by (metis map_of_eq_None_iff not_Some_eq set_map)
  have "get_transcript nfo None =
           (case select_caption caps of
              Inl e \<Rightarrow> Inl e
            | Inr (u, f) \<Rightarrow>
                Inr \<lparr> s_language = chosen, s_available_languages = map fst ?m,
                      s_caption_url = u, s_caption_format = f \<rparr>)"
    by (rule get_transcript_selected [OF assms(3,4) ne sl caps])
  then show "let keys = map fst (dict_merge a s);
              original = (case vi_original_language nfo of Val l \<Rightarrow> Some l | _ \<Rightarrow> None);
              declared = (case vi_language nfo of
                            Val l \<Rightarrow> if l = [] then original else Some l
                          | _ \<Rightarrow> original);
              fallback = (if S ''en'' \<in> set keys then S ''en''
                          else if S ''en-US'' \<in> set keys then S ''en-US''
                          else if S ''en-GB'' \<in> set keys then S ''en-GB''
                          else hd keys);
              chosen = (case declared of
                          Some d \<Rightarrow> if d \<noteq> [] \<and> d \<in> set keys then d else fallback
                        | None \<Rightarrow> fallback)
          in \<exists>caps. map_of (dict_merge a s) chosen = Some caps
               \<and> get_transcript nfo None =
                   (case select_caption caps of
                      Inl e \<Rightarrow> Inl e
                    | Inr (u, f) \<Rightarrow>
                        Inr \<lparr> s_language = chosen, s_available_languages = keys,
                              s_caption_url = u, s_caption_format = f \<rparr>)"
    using caps unfolding chosen_def Let_def by blast
qed


text \<open>
  Automatic captions fr and en, manual captions en and de. Declared language de: de is
  selected. Empty \<open>language\<close> and original language fr: fr. Declared language ja, which
  has no captions: en, with the manual track. Captions zh and ko only, nothing declared:
  zh, the first key.
\<close>

theorem merged_captions_default_language_witness:
  "get_transcript
     \<lparr> vi_automatic_captions = Val [(S ''fr'', [track ''vtt'' ''auto-fr'']), (S ''en'', [track ''vtt'' ''auto-en''])],
       vi_subtitles = Val [(S ''en'', [track ''vtt'' ''manual-en'']), (S ''de'', [track ''vtt'' ''manual-de''])],
       vi_language = Val (S ''de''), vi_original_language = Val (S ''fr'') \<rparr> None
     = Inr \<lparr> s_language = S ''de'', s_available_languages = [S ''fr'', S ''en'', S ''de''],
             s_caption_url = S ''manual-de'', s_caption_format = Some (S ''vtt'') \<rparr>
   \<and> get_transcript
     \<lparr> vi_automatic_captions = Val [(S ''fr'', [track ''vtt'' ''auto-fr'']), (S ''en'', [track ''vtt'' ''auto-en''])],
       vi_subtitles = Val [(S ''en'', [track ''vtt'' ''manual-en'']), (S ''de'', [track ''vtt'' ''manual-de''])],
       vi_language = Val [], vi_original_language = Val (S ''fr'') \<rparr> None
     = Inr \<lparr> s_language = S ''fr'', s_available_languages = [S ''fr'', S ''en'', S ''de''],
             s_caption_url = S ''auto-fr'', s_caption_format = Some (S ''vtt'') \<rparr>
   \<and> get_transcript
     \<lparr> vi_automatic_captions = Val [(S ''fr'', [track ''vtt'' ''auto-fr'']), (S ''en'', [track ''vtt'' ''auto-en''])],
       vi_subtitles = Val [(S ''en'', [track ''vtt'' ''manual-en'']), (S ''de'', [track ''vtt'' ''manual-de''])],
       vi_language = Val (S ''ja''), vi_original_language = Missing \<rparr> None
     = Inr \<lparr> s_language = S ''en'', s_available_languages = [S ''fr'', S ''en'', S ''de''],
             s_caption_url = S ''manual-en'', s_caption_format = Some (S ''vtt'') \<rparr>
   \<and> get_transcript
     \<lparr> vi_automatic_captions = Val [(S ''zh'', [track ''vtt'' ''auto-zh''])],
       vi_subtitles = Val [(S ''ko'', [track ''vtt'' ''manual-ko''])],
       vi_language = Null, vi_original_language = Missing \<rparr> None
     = Inr \<lparr> s_language = S ''zh'', s_available_languages = [S ''zh'', S ''ko''],
             s_caption_url = S ''auto-zh'', s_caption_format = Some (S ''vtt'') \<rparr>"
proof -
  let ?a = "[(S ''fr'', [track ''vtt'' ''auto-fr'']), (S ''en'', [track ''vtt'' ''auto-en''])]"
  let ?s = "[(S ''en'', [track ''vtt'' ''manual-en'']), (S ''de'', [track ''vtt'' ''manual-de''])]"
  let ?a2 = "[(S ''zh'', [track ''vtt'' ''auto-zh''])]"
  let ?s2 = "[(S ''ko'', [track ''vtt'' ''manual-ko''])]"
  have d: "distinct (map fst ?a)" "distinct (map fst ?s)"
    "distinct (map fst ?a2)" "distinct (map fst ?s2)" by simp_all
  have 1: "get_transcript
     \<lparr> vi_automatic_captions = Val ?a, vi_subtitles = Val ?s,
       vi_language = Val (S ''de''), vi_original_language = Val (S ''fr'') \<rparr> None
     = Inr \<lparr> s_language = S ''de'', s_available_languages = [S ''fr'', S ''en'', S ''de''],
             s_caption_url = S ''manual-de'', s_caption_format = Some (S ''vtt'') \<rparr>"
    using merged_captions_default_language [OF d(1,2), where nfo =
        "\<lparr> vi_automatic_captions = Val ?a, vi_subtitles = Val ?s,
           vi_language = Val (S ''de''), vi_original_language = Val (S ''fr'') \<rparr>"]
    by (simp add: dict_merge_def select_caption_def track_def truthy_def Let_def)
  have 2: "get_transcript
     \<lparr> vi_automatic_captions = Val ?a, vi_subtitles = Val ?s,
       vi_language = Val [], vi_original_language = Val (S ''fr'') \<rparr> None
     = Inr \<lparr> s_language = S ''fr'', s_available_languages = [S ''fr'', S ''en'', S ''de''],
             s_caption_url = S ''auto-fr'', s_caption_format = Some (S ''vtt'') \<rparr>"
    using merged_captions_default_language [OF d(1,2), where nfo =
        "\<lparr> vi_automatic_captions = Val ?a, vi_subtitles = Val ?s,
           vi_language = Val [], vi_original_language = Val (S ''fr'') \<rparr>"]
    by (simp add: dict_merge_def select_caption_def track_def truthy_def Let_def)
  have 3: "get_transcript
     \<lparr> vi_automatic_captions = Val ?a, vi_subtitles = Val ?s,
       vi_language = Val (S ''ja''), vi_original_language = Missing \<rparr> None
     = Inr \<lparr> s_language = S ''en'', s_available_languages = [S ''fr'', S ''en'', S ''de''],
             s_caption_url = S ''manual-en'', s_caption_format = Some (S ''vtt'') \<rparr>"
    using merged_captions_default_language [OF d(1,2), where nfo =
        "\<lparr> vi_automatic_captions = Val ?a, vi_subtitles = Val ?s,
           vi_language = Val (S ''ja''), vi_original_language = Missing \<rparr>"]
    by (simp add: dict_merge_def select_caption_def track_def truthy_def Let_def)
  have 4: "get_transcript
     \<lparr> vi_automatic_captions = Val ?a2, vi_subtitles = Val ?s2,
       vi_language = Null, vi_original_language = Missing \<rparr> None
     = Inr \<lparr> s_language = S ''zh'', s_available_languages = [S ''zh'', S ''ko''],
             s_caption_url = S ''auto-zh'', s_caption_format = Some (S ''vtt'') \<rparr>"
    using merged_captions_default_language [OF d(3,4), where nfo =
        "\<lparr> vi_automatic_captions = Val ?a2, vi_subtitles = Val ?s2,
           vi_language = Null, vi_original_language = Missing \<rparr>"]
    by (simp add: dict_merge_def select_caption_def track_def truthy_def Let_def)
  show ?thesis using 1 2 3 4 by blast
qed

subsection \<open>Caption-format selection\<close>

lemma vtt_loop_none:
  "\<forall>x \<in> set captions. get (c_ext x) \<noteq> Some (S ''vtt'') \<Longrightarrow> vtt_loop captions = Inr (None, None)"
  by (induction captions) auto

lemma vtt_loop_first:
  assumes "\<forall>x \<in> set pre. get (c_ext x) \<noteq> Some (S ''vtt'')"
    and "get (c_ext c) = Some (S ''vtt'')" and "c_url c = Val u"
  shows "vtt_loop (pre @ c # post) = Inr (Some u, Some (S ''vtt''))"
  using assms by (induction pre) auto

lemma fallback_loop_none:
  "\<forall>x \<in> set captions. \<forall>e. get (c_ext x) = Some e
       \<longrightarrow> e \<notin> set [S ''srv1'', S ''srv2'', S ''srv3'', S ''json3'']
   \<Longrightarrow> fallback_loop captions st = Inr st"
proof (induction captions)
  case Nil
  then show ?case by simp
next
  case (Cons c cs)
  then have "fallback_loop cs st = Inr st" by simp
  moreover have "\<forall>e. get (c_ext c) = Some e
       \<longrightarrow> e \<notin> set [S ''srv1'', S ''srv2'', S ''srv3'', S ''json3'']"
    using Cons.prems by simp
  ultimately show ?case by (cases "get (c_ext c)") simp_all
qed

lemma fallback_loop_first:
  assumes "\<forall>x \<in> set pre. \<forall>e. get (c_ext x) = Some e
       \<longrightarrow> e \<notin> set [S ''srv1'', S ''srv2'', S ''srv3'', S ''json3'']"
    and "get (c_ext c) = Some e" and "e \<in> set [S ''srv1'', S ''srv2'', S ''srv3'', S ''json3'']"
    and "c_url c = Val u"
  shows "fallback_loop (pre @ c # post) st = Inr (Some u, Some e)"
  using assms(1)
proof (induction pre)
  case Nil
  then show ?case using assms(2,3,4) by simp
next
  case (Cons x xs)
  then have ih: "fallback_loop (xs @ c # post) st = Inr (Some u, Some e)" by simp
  have "\<forall>e. get (c_ext x) = Some e
       \<longrightarrow> e \<notin> set [S ''srv1'', S ''srv2'', S ''srv3'', S ''json3'']"
    using Cons.prems by simp
  then show ?case using ih by (cases "get (c_ext x)") simp_all
qed

text \<open>
  C3, as the code has it. Among the tracks of the selected language the first track whose
  extension is vtt is taken, when its URL is there and not empty. When no track has the
  extension vtt, the first track in the order of the list whose extension is one of srv1,
  srv2, srv3, json3 is taken, with its own extension as the format. When no track has any
  of these extensions the result is the error "Could not get subtitle URL".
\<close>

theorem select_caption_first_track:
  "(captions = pre @ c # post
      \<and> (\<forall>x \<in> set pre. get (c_ext x) \<noteq> Some (S ''vtt''))
      \<and> get (c_ext c) = Some (S ''vtt'') \<and> c_url c = Val u \<and> u \<noteq> []
      \<longrightarrow> select_caption captions = Inr (u, Some (S ''vtt'')))
   \<and> ((\<forall>x \<in> set captions. get (c_ext x) \<noteq> Some (S ''vtt''))
      \<and> captions = pre @ c # post
      \<and> (\<forall>x \<in> set pre. \<forall>e. get (c_ext x) = Some e
             \<longrightarrow> e \<notin> set [S ''srv1'', S ''srv2'', S ''srv3'', S ''json3''])
      \<and> get (c_ext c) = Some e \<and> e \<in> set [S ''srv1'', S ''srv2'', S ''srv3'', S ''json3'']
      \<and> c_url c = Val u \<and> u \<noteq> []
      \<longrightarrow> select_caption captions = Inr (u, Some e))
   \<and> ((\<forall>x \<in> set captions. get (c_ext x) \<noteq> Some (S ''vtt'')
           \<and> (\<forall>e. get (c_ext x) = Some e
                 \<longrightarrow> e \<notin> set [S ''srv1'', S ''srv2'', S ''srv3'', S ''json3'']))
      \<longrightarrow> select_caption captions = Inl Could_not_get_subtitle_URL)"
proof (intro conjI impI)
  assume a: "captions = pre @ c # post
      \<and> (\<forall>x \<in> set pre. get (c_ext x) \<noteq> Some (S ''vtt''))
      \<and> get (c_ext c) = Some (S ''vtt'') \<and> c_url c = Val u \<and> u \<noteq> []"
  then have "vtt_loop captions = Inr (Some u, Some (S ''vtt''))"
    using vtt_loop_first [of pre c u post] by simp
  then show "select_caption captions = Inr (u, Some (S ''vtt''))"
    using a by (simp add: select_caption_def truthy_def)
next
  assume a: "(\<forall>x \<in> set captions. get (c_ext x) \<noteq> Some (S ''vtt''))
      \<and> captions = pre @ c # post
      \<and> (\<forall>x \<in> set pre. \<forall>e. get (c_ext x) = Some e
             \<longrightarrow> e \<notin> set [S ''srv1'', S ''srv2'', S ''srv3'', S ''json3''])
      \<and> get (c_ext c) = Some e \<and> e \<in> set [S ''srv1'', S ''srv2'', S ''srv3'', S ''json3'']
      \<and> c_url c = Val u \<and> u \<noteq> []"
  then have v: "vtt_loop captions = Inr (None, None)" using vtt_loop_none by blast
  have "fallback_loop (pre @ c # post) (None, None) = Inr (Some u, Some e)"
    using a by (intro fallback_loop_first) blast+
  then have "fallback_loop captions (None, None) = Inr (Some u, Some e)" using a by simp
  then show "select_caption captions = Inr (u, Some e)"
    using a v by (simp add: select_caption_def truthy_def)
next
  assume a: "\<forall>x \<in> set captions. get (c_ext x) \<noteq> Some (S ''vtt'')
           \<and> (\<forall>e. get (c_ext x) = Some e
                 \<longrightarrow> e \<notin> set [S ''srv1'', S ''srv2'', S ''srv3'', S ''json3''])"
  then have v: "vtt_loop captions = Inr (None, None)" using vtt_loop_none by blast
  have "fallback_loop captions (None, None) = Inr (None, None)"
    using a by (intro fallback_loop_none) blast
  then show "select_caption captions = Inl Could_not_get_subtitle_URL"
    using v by (simp add: select_caption_def truthy_def)
qed

text \<open>A vtt track behind another one, an srv3 track before an srv1 track, no usable track.\<close>

theorem select_caption_first_track_witness:
  "select_caption [track ''ttml'' ''u0'', track ''vtt'' ''u1'', track ''srv1'' ''u2'']
     = Inr (S ''u1'', Some (S ''vtt''))
   \<and> select_caption [track ''ttml'' ''u0'', track ''srv3'' ''u1'', track ''srv1'' ''u2'']
     = Inr (S ''u1'', Some (S ''srv3''))
   \<and> select_caption [track ''ttml'' ''u0''] = Inl Could_not_get_subtitle_URL"
proof -
  have 1: "select_caption [track ''ttml'' ''u0'', track ''vtt'' ''u1'', track ''srv1'' ''u2'']
     = Inr (S ''u1'', Some (S ''vtt''))"
    using select_caption_first_track
      [of "[track ''ttml'' ''u0'', track ''vtt'' ''u1'', track ''srv1'' ''u2'']"
          "[track ''ttml'' ''u0'']" "track ''vtt'' ''u1''" "[track ''srv1'' ''u2'']" "S ''u1''"]
    by (simp add: track_def)
  have 2: "select_caption [track ''ttml'' ''u0'', track ''srv3'' ''u1'', track ''srv1'' ''u2'']
     = Inr (S ''u1'', Some (S ''srv3''))"
    using select_caption_first_track
      [of "[track ''ttml'' ''u0'', track ''srv3'' ''u1'', track ''srv1'' ''u2'']"
          "[track ''ttml'' ''u0'']" "track ''srv3'' ''u1''" "[track ''srv1'' ''u2'']" "S ''u1''"
          "S ''srv3''"]
    by (simp add: track_def)
  have 3: "select_caption [track ''ttml'' ''u0''] = Inl Could_not_get_subtitle_URL"
    using select_caption_first_track [of "[track ''ttml'' ''u0'']"]
    by (simp add: track_def)
  show ?thesis using 1 2 3 by blast
qed

text \<open>A json3 track listed before an srv1 track is the one selected.\<close>

theorem select_caption_order_counterexample:
  "select_caption [track ''json3'' ''https://c/json3'', track ''srv1'' ''https://c/srv1'']
     = Inr (S ''https://c/json3'', Some (S ''json3''))"
  by code_simp

subsection \<open>A preferred language\<close>

lemma partial_match_none:
  "\<forall>l \<in> set langs. \<not> contains (lower l) (lower p) \<Longrightarrow> partial_match p langs = None"
  by (induction langs) auto

lemma partial_match_first:
  assumes "\<forall>l \<in> set pre. \<not> contains (lower l) (lower p)"
    and "contains (lower lang) (lower p)"
  shows "partial_match p (pre @ lang # post) = Some lang"
  using assms by (induction pre) auto

lemma contains_nonempty: "contains s sub \<Longrightarrow> sub \<noteq> [] \<Longrightarrow> s \<noteq> []"
  by (cases s) auto

lemma select_language_exact:
  "p \<noteq> [] \<Longrightarrow> p \<in> set (map fst m) \<Longrightarrow> select_language m ol (Some p) = Inr p"
  by (simp add: select_language_def truthy_def has_key_def)

lemma select_language_partial:
  assumes "p \<noteq> []" and "p \<notin> set (map fst m)" and "map fst m = pre @ lang # post"
    and "\<forall>l \<in> set pre. \<not> (\<exists>x y. lower l = x @ lower p @ y)"
    and "\<exists>x y. lower lang = x @ lower p @ y"
  shows "select_language m ol (Some p) = Inr lang"
proof -
  have c: "contains (lower lang) (lower p)" using assms(5) by (simp add: contains_iff)
  have "lower p \<noteq> []" using assms(1) by (simp add: lower_Nil_iff)
  then have "lower lang \<noteq> []" using c contains_nonempty by blast
  then have ne: "lang \<noteq> []" by (auto simp: lower_Nil_iff)
  have "partial_match p (map fst m) = Some lang"
    using assms(3,4) c partial_match_first [of pre p lang post] by (simp add: contains_iff)
  then show ?thesis
    using assms(1,2) ne by (simp add: select_language_def truthy_def Let_def has_key_def)
qed

lemma select_language_no_match:
  assumes "p \<noteq> []" and "p \<notin> set (map fst m)"
    and "\<forall>l \<in> set (map fst m). \<not> (\<exists>x y. lower l = x @ lower p @ y)"
  shows "select_language m ol (Some p) = Inl (Language_not_found p (map fst m))"
proof -
  have "partial_match p (map fst m) = None"
    using assms(3) by (intro partial_match_none) (simp add: contains_iff)
  then show ?thesis
    using assms by (simp add: select_language_def truthy_def Let_def has_key_def)
qed

text \<open>
  C6. With a preferred language code given (not empty) and the merged caption map at
  hand: a code that is a key of the map is selected itself; otherwise the first language
  code of the map, in map order, whose lower-cased form contains the lower-cased preferred
  code is selected; in both cases \<open>get_transcript\<close> goes on with the tracks of the selected
  language and returns it as the language of the result. When there is neither,
  \<open>get_transcript\<close> returns the error "Language not found" with the list of all language
  codes of the map.
\<close>

theorem preferred_language_selection:
  assumes "get_default (vi_automatic_captions nfo) [] = Some a"
    and "get_default (vi_subtitles nfo) [] = Some s"
    and "p \<noteq> []"
  shows
   "(p \<in> set (map fst (dict_merge a s)) \<and> map_of (dict_merge a s) p = Some caps \<longrightarrow>
       get_transcript nfo (Some p) =
         (case select_caption caps of
            Inl e \<Rightarrow> Inl e
          | Inr (u, f) \<Rightarrow>
              Inr \<lparr> s_language = p, s_available_languages = map fst (dict_merge a s),
                    s_caption_url = u, s_caption_format = f \<rparr>))
    \<and> (p \<notin> set (map fst (dict_merge a s)) \<and> map fst (dict_merge a s) = pre @ lang # post
        \<and> (\<forall>l \<in> set pre. \<not> (\<exists>x y. lower l = x @ lower p @ y))
        \<and> (\<exists>x y. lower lang = x @ lower p @ y)
        \<and> map_of (dict_merge a s) lang = Some caps \<longrightarrow>
       get_transcript nfo (Some p) =
         (case select_caption caps of
            Inl e \<Rightarrow> Inl e
          | Inr (u, f) \<Rightarrow>
              Inr \<lparr> s_language = lang, s_available_languages = map fst (dict_merge a s),
                    s_caption_url = u, s_caption_format = f \<rparr>))
    \<and> (dict_merge a s \<noteq> [] \<and> p \<notin> set (map fst (dict_merge a s))
        \<and> (\<forall>l \<in> set (map fst (dict_merge a s)). \<not> (\<exists>x y. lower l = x @ lower p @ y)) \<longrightarrow>
       get_transcript nfo (Some p)
         = Inl (Language_not_found p (map fst (dict_merge a s))))"
proof (intro conjI impI)
  let ?m = "dict_merge a s"
  let ?ol = "or_else (get (vi_language nfo)) (get (vi_original_language nfo))"
  {
    assume h: "p \<in> set (map fst ?m) \<and> map_of ?m p = Some caps"
    then have ne: "?m \<noteq> []" by auto
    have "select_language ?m ?ol (Some p) = Inr p"
      using h assms(3) by (simp add: select_language_exact)
    then show "get_transcript nfo (Some p) =
         (case select_caption caps of
            Inl e \<Rightarrow> Inl e
          | Inr (u, f) \<Rightarrow>
              Inr \<lparr> s_language = p, s_available_languages = map fst ?m,
                    s_caption_url = u, s_caption_format = f \<rparr>)"
      using get_transcript_selected [OF assms(1,2) ne] h by blast
  next
    assume h: "p \<notin> set (map fst ?m) \<and> map fst ?m = pre @ lang # post
        \<and> (\<forall>l \<in> set pre. \<not> (\<exists>x y. lower l = x @ lower p @ y))
        \<and> (\<exists>x y. lower lang = x @ lower p @ y)
        \<and> map_of ?m lang = Some caps"
    then have ne: "?m \<noteq> []" by auto
    have "select_language ?m ?ol (Some p) = Inr lang"
      using h assms(3) select_language_partial [of p ?m pre lang post ?ol] by blast
    then show "get_transcript nfo (Some p) =
         (case select_caption caps of
            Inl e \<Rightarrow> Inl e
          | Inr (u, f) \<Rightarrow>
              Inr \<lparr> s_language = lang, s_available_languages = map fst ?m,
                    s_caption_url = u, s_caption_format = f \<rparr>)"
      using get_transcript_selected [OF assms(1,2) ne] h by blast
  next
    assume h: "?m \<noteq> [] \<and> p \<notin> set (map fst ?m)
        \<and> (\<forall>l \<in> set (map fst ?m). \<not> (\<exists>x y. lower l = x @ lower p @ y))"
    have "select_language ?m ?ol (Some p) = Inl (Language_not_found p (map fst ?m))"
      using h assms(3) select_language_no_match [of p ?m ?ol] by blast
    then show "get_transcript nfo (Some p) = Inl (Language_not_found p (map fst ?m))"
      using h assms(1,2) by (simp add: get_transcript_def Let_def)
  }
qed

text \<open>
  Captions zh-Hant, ko and en-US: en-US is selected for en-US and for EN, ko for the Kelvin
  sign U+212A, whose lower case is k; for ja the error lists the three codes.
\<close>

theorem preferred_language_selection_witness:
  "get_transcript
     \<lparr> vi_automatic_captions = Val [(S ''zh-Hant'', [track ''vtt'' ''u1'']), (S ''ko'', [track ''vtt'' ''u3''])],
       vi_subtitles = Val [(S ''en-US'', [track ''vtt'' ''u2''])],
       vi_language = Missing, vi_original_language = Missing \<rparr> (Some (S ''en-US''))
     = Inr \<lparr> s_language = S ''en-US'', s_available_languages = [S ''zh-Hant'', S ''ko'', S ''en-US''],
             s_caption_url = S ''u2'', s_caption_format = Some (S ''vtt'') \<rparr>
   \<and> get_transcript
     \<lparr> vi_automatic_captions = Val [(S ''zh-Hant'', [track ''vtt'' ''u1'']), (S ''ko'', [track ''vtt'' ''u3''])],
       vi_subtitles = Val [(S ''en-US'', [track ''vtt'' ''u2''])],
       vi_language = Missing, vi_original_language = Missing \<rparr> (Some (S ''EN''))
     = Inr \<lparr> s_language = S ''en-US'', s_available_languages = [S ''zh-Hant'', S ''ko'', S ''en-US''],
             s_caption_url = S ''u2'', s_caption_format = Some (S ''vtt'') \<rparr>
   \<and> get_transcript
     \<lparr> vi_automatic_captions = Val [(S ''zh-Hant'', [track ''vtt'' ''u1'']), (S ''ko'', [track ''vtt'' ''u3''])],
       vi_subtitles = Val [(S ''en-US'', [track ''vtt'' ''u2''])],
       vi_language = Missing, vi_original_language = Missing \<rparr> (Some [8490])
     = Inr \<lparr> s_language = S ''ko'', s_available_languages = [S ''zh-Hant'', S ''ko'', S ''en-US''],
             s_caption_url = S ''u3'', s_caption_format = Some (S ''vtt'') \<rparr>
   \<and> get_transcript
     \<lparr> vi_automatic_captions = Val [(S ''zh-Hant'', [track ''vtt'' ''u1'']), (S ''ko'', [track ''vtt'' ''u3''])],
       vi_subtitles = Val [(S ''en-US'', [track ''vtt'' ''u2''])],
       vi_language = Missing, vi_original_language = Missing \<rparr> (Some (S ''ja''))
     = Inl (Language_not_found (S ''ja'') [S ''zh-Hant'', S ''ko'', S ''en-US''])"
proof -
  let ?a = "[(S ''zh-Hant'', [track ''vtt'' ''u1'']), (S ''ko'', [track ''vtt'' ''u3''])]"
  let ?s = "[(S ''en-US'', [track ''vtt'' ''u2''])]"
  let ?m = "[(S ''zh-Hant'', [track ''vtt'' ''u1'']), (S ''ko'', [track ''vtt'' ''u3'']),
             (S ''en-US'', [track ''vtt'' ''u2''])]"
  let ?nfo = "\<lparr> vi_automatic_captions = Val ?a, vi_subtitles = Val ?s,
                vi_language = Missing, vi_original_language = Missing \<rparr>"
  have g: "get_default (vi_automatic_captions ?nfo) [] = Some ?a"
    "get_default (vi_subtitles ?nfo) [] = Some ?s" by simp_all
  have m: "dict_merge ?a ?s = ?m" by (simp add: dict_merge_def)
  have sc: "select_caption [track ''vtt'' ''u2''] = Inr (S ''u2'', Some (S ''vtt''))"
    "select_caption [track ''vtt'' ''u3''] = Inr (S ''u3'', Some (S ''vtt''))"
    by (simp_all add: select_caption_def track_def truthy_def)
  note t = preferred_language_selection [OF g, unfolded m]
  have 1: "get_transcript ?nfo (Some (S ''en-US''))
     = Inr \<lparr> s_language = S ''en-US'', s_available_languages = [S ''zh-Hant'', S ''ko'', S ''en-US''],
             s_caption_url = S ''u2'', s_caption_format = Some (S ''vtt'') \<rparr>"
  proof -
    have ne: "S ''en-US'' \<noteq> []" by simp
    have h: "S ''en-US'' \<in> set (map fst ?m) \<and> map_of ?m (S ''en-US'') = Some [track ''vtt'' ''u2'']"
      by simp
    show ?thesis
      using t [OF ne, where caps = "[track ''vtt'' ''u2'']"] h unfolding sc by simp
  qed
  have 2: "get_transcript ?nfo (Some (S ''EN''))
     = Inr \<lparr> s_language = S ''en-US'', s_available_languages = [S ''zh-Hant'', S ''ko'', S ''en-US''],
             s_caption_url = S ''u2'', s_caption_format = Some (S ''vtt'') \<rparr>"
  proof -
    have ne: "S ''EN'' \<noteq> []" by simp
    have h: "S ''EN'' \<notin> set (map fst ?m)
        \<and> map fst ?m = [S ''zh-Hant'', S ''ko''] @ S ''en-US'' # []
        \<and> (\<forall>l \<in> set [S ''zh-Hant'', S ''ko'']. \<not> (\<exists>x y. lower l = x @ lower (S ''EN'') @ y))
        \<and> (\<exists>x y. lower (S ''en-US'') = x @ lower (S ''EN'') @ y)
        \<and> map_of ?m (S ''en-US'') = Some [track ''vtt'' ''u2'']"
      unfolding contains_iff [symmetric]
      by (simp add: lower_def lower_cp_def lower_table_def)
    show ?thesis
      using t [OF ne, where caps = "[track ''vtt'' ''u2'']" and pre = "[S ''zh-Hant'', S ''ko'']"
          and lang = "S ''en-US''" and post = "[]"] h
      unfolding sc by simp
  qed
  have 3: "get_transcript ?nfo (Some [8490])
     = Inr \<lparr> s_language = S ''ko'', s_available_languages = [S ''zh-Hant'', S ''ko'', S ''en-US''],
             s_caption_url = S ''u3'', s_caption_format = Some (S ''vtt'') \<rparr>"
  proof -
    have ne: "[8490::nat] \<noteq> []" by simp
    have h: "[8490] \<notin> set (map fst ?m)
        \<and> map fst ?m = [S ''zh-Hant''] @ S ''ko'' # [S ''en-US'']
        \<and> (\<forall>l \<in> set [S ''zh-Hant'']. \<not> (\<exists>x y. lower l = x @ lower [8490] @ y))
        \<and> (\<exists>x y. lower (S ''ko'') = x @ lower [8490] @ y)
        \<and> map_of ?m (S ''ko'') = Some [track ''vtt'' ''u3'']"
      unfolding contains_iff [symmetric]
      by (simp add: lower_def lower_cp_def lower_table_def)
    show ?thesis
      using t [OF ne, where caps = "[track ''vtt'' ''u3'']" and pre = "[S ''zh-Hant'']"
          and lang = "S ''ko''" and post = "[S ''en-US'']"] h
      unfolding sc by simp
  qed
  have 4: "get_transcript ?nfo (Some (S ''ja''))
     = Inl (Language_not_found (S ''ja'') [S ''zh-Hant'', S ''ko'', S ''en-US''])"
  proof -
    have ne: "S ''ja'' \<noteq> []" by simp
    have h: "?m \<noteq> [] \<and> S ''ja'' \<notin> set (map fst ?m)
        \<and> (\<forall>l \<in> set (map fst ?m). \<not> (\<exists>x y. lower l = x @ lower (S ''ja'') @ y))"
      unfolding contains_iff [symmetric]
      by (simp add: lower_def lower_cp_def lower_table_def)
    show ?thesis
      using t [OF ne] h by simp
  qed
  show ?thesis using 1 2 3 4 by blast
qed

section \<open>Properties of the search result parser\<close>

lemma contains_takeWhile: "contains (takeWhile P s) d \<Longrightarrow> contains s d"
proof -
  assume "contains (takeWhile P s) d"
  then obtain pre post where "takeWhile P s = pre @ d @ post" by (auto simp: contains_iff)
  then have "s = pre @ d @ (post @ dropWhile P s)"
    using takeWhile_dropWhile_id [of P s] by simp
  then show ?thesis using contains_iff by blast
qed

lemma startswith_takeWhile: "startswith (takeWhile P s) d \<Longrightarrow> startswith s d"
proof -
  assume "startswith (takeWhile P s) d"
  then obtain t where "takeWhile P s = d @ t" by (auto simp: startswith_iff)
  then have "s = d @ (t @ dropWhile P s)"
    using takeWhile_dropWhile_id [of P s] by simp
  then show ?thesis using startswith_iff by blast
qed

lemma clean_url_not_filtered:
  assumes "\<not> should_filter url"
  shows "\<not> list_ex (contains (clean_url url)) FILTER_DOMAINS"
    and "\<not> startswith (clean_url url) (S ''blob:'')"
proof -
  have "\<not> list_ex (contains url) FILTER_DOMAINS" "\<not> startswith url (S ''blob:'')"
    using assms by (simp_all add: should_filter_def)
  then show "\<not> list_ex (contains (clean_url url)) FILTER_DOMAINS"
    and "\<not> startswith (clean_url url) (S ''blob:'')"
    unfolding clean_url_def list_ex_iff
    using contains_takeWhile startswith_takeWhile by blast+
qed

lemma parse_lines_origin:
  "r \<in> set (parse_lines seen ls) \<Longrightarrow>
     \<exists>pre line rest raw_title url.
       ls = pre @ line # rest \<and> match_result line = Some (raw_title, url)
       \<and> \<not> should_filter url \<and> clean_title raw_title \<noteq> []
       \<and> sr_title r = clean_title raw_title \<and> sr_url r = clean_url url
       \<and> sr_description r = scan_description (take 9 rest)"
proof (induction ls arbitrary: seen)
  case Nil
  then show ?case by simp
next
  case (Cons line rest)
  let ?P = "\<lambda>ls pre line rest raw_title url.
       ls = pre @ line # rest \<and> match_result line = Some (raw_title, url)
       \<and> \<not> should_filter url \<and> clean_title raw_title \<noteq> []
       \<and> sr_title r = clean_title raw_title \<and> sr_url r = clean_url url
       \<and> sr_description r = scan_description (take 9 rest)"
  have later: "\<exists>pre l rs raw_title url. ?P (line # rest) pre l rs raw_title url"
    if "r \<in> set (parse_lines seen' rest)" for seen'
  proof -
    from Cons.IH [OF that] obtain pre l rs raw_title url where "?P rest pre l rs raw_title url"
      by blast
    then have "?P (line # rest) (line # pre) l rs raw_title url" by simp
    then show ?thesis by blast
  qed
  show ?case
  proof (cases "match_result line")
    case None
    then have "r \<in> set (parse_lines seen rest)" using Cons.prems by simp
    then show ?thesis by (rule later)
  next
    case (Some m)
    obtain raw_title url where m: "m = (raw_title, url)" by (cases m)
    show ?thesis
    proof (cases "should_filter url \<or> clean_url url \<in> seen \<or> clean_title raw_title = []")
      case True
      then have "r \<in> set (parse_lines seen rest)"
        using Cons.prems Some m by (simp add: Let_def)
      then show ?thesis by (rule later)
    next
      case False
      then have "r = \<lparr> sr_title = clean_title raw_title, sr_url = clean_url url,
                     sr_description = scan_description (take 9 rest) \<rparr>
                 \<or> r \<in> set (parse_lines (insert (clean_url url) seen) rest)"
        using Cons.prems Some m by (simp add: Let_def)
      then show ?thesis
      proof
        assume "r = \<lparr> sr_title = clean_title raw_title, sr_url = clean_url url,
                     sr_description = scan_description (take 9 rest) \<rparr>"
        then have "?P (line # rest) [] line rest raw_title url"
          using Some m False by simp
        then show ?thesis by blast
      next
        assume "r \<in> set (parse_lines (insert (clean_url url) seen) rest)"
        then show ?thesis by (rule later)
      qed
    qed
  qed
qed

lemma parse_lines_urls:
  "distinct (map sr_url (parse_lines seen ls))
   \<and> (\<forall>r \<in> set (parse_lines seen ls). sr_url r \<notin> seen)"
proof (induction ls arbitrary: seen)
  case Nil
  then show ?case by simp
next
  case (Cons line rest)
  show ?case
  proof (cases "match_result line")
    case None
    then show ?thesis using Cons.IH [of seen] by simp
  next
    case (Some m)
    obtain raw_title url where m: "m = (raw_title, url)" by (cases m)
    show ?thesis
    proof (cases "should_filter url \<or> clean_url url \<in> seen \<or> clean_title raw_title = []")
      case True
      then show ?thesis using Cons.IH [of seen] Some m by (simp add: Let_def)
    next
      case False
      then show ?thesis
        using Cons.IH [of "insert (clean_url url) seen"] Some m
        by (auto simp: Let_def)
    qed
  qed
qed

text \<open>
  C4, as the code has it. For every markdown input the URLs of the results, which are
  canonicalized (cut at the first \<open>#\<close> or \<open>?\<close>), are pairwise distinct; no result has an empty
  cleaned title; every result comes from a header line whose raw URL is not filtered (no
  filtered domain in it, no blob reference, no image-file ending), and so its canonicalized
  URL holds no filtered domain and is no blob reference.
\<close>

theorem accepted_results_invariant:
  "distinct (map sr_url (parse_results content))
   \<and> (\<forall>r \<in> set (parse_results content).
        sr_title r \<noteq> []
        \<and> \<not> list_ex (contains (sr_url r)) FILTER_DOMAINS
        \<and> \<not> startswith (sr_url r) (S ''blob:'')
        \<and> (\<exists>line raw_title url.
              line \<in> set (split_lines content) \<and> match_result line = Some (raw_title, url)
              \<and> sr_title r = clean_title raw_title \<and> sr_url r = clean_url url
              \<and> \<not> should_filter url))"
proof (intro conjI ballI)
  show "distinct (map sr_url (parse_results content))"
    using parse_lines_urls [of "{}" "split_lines content"] by (simp add: parse_results_def)
next
  fix r assume "r \<in> set (parse_results content)"
  then have "r \<in> set (parse_lines {} (split_lines content))" by (simp add: parse_results_def)
  from parse_lines_origin [OF this] obtain pre line rest raw_title url where
    o: "split_lines content = pre @ line # rest" "match_result line = Some (raw_title, url)"
      "\<not> should_filter url" "clean_title raw_title \<noteq> []"
      "sr_title r = clean_title raw_title" "sr_url r = clean_url url"
    by blast
  show "sr_title r \<noteq> []" using o by simp
  show "\<not> list_ex (contains (sr_url r)) FILTER_DOMAINS"
    using clean_url_not_filtered(1) [OF o(3)] o(6) by simp
  show "\<not> startswith (sr_url r) (S ''blob:'')"
    using clean_url_not_filtered(2) [OF o(3)] o(6) by simp
  have "line \<in> set (split_lines content)" using o(1) by simp
  then show "\<exists>line raw_title url.
              line \<in> set (split_lines content) \<and> match_result line = Some (raw_title, url)
              \<and> sr_title r = clean_title raw_title \<and> sr_url r = clean_url url
              \<and> \<not> should_filter url"
    using o by blast
qed

text \<open>The definitions unfolded to run the parser on a given text.\<close>

lemmas parser_eval =
  parse_results_def match_result_def url_tail_def url_run_def clean_title_def clean_url_def
  should_filter_def FILTER_DOMAINS_def image_file_def ci_fold_def cut_breadcrumb_def strip_def
  isspace_def Let_def stops_scan_def noise_def bare_domain_def domain_tail_def domain_char_def
  ci_letter_def clean_desc_def strip_date_def date_stamp_def date_rest_def eat_def eat_lit_def
  is_upper_def is_lower_def is_digit_def decimal_digit_ranges_def in_ranges_def
  lower_def lower_cp_def

text \<open>
  Two headers with the same page behind different query strings and fragments, and one of
  a filtered domain: one result.
\<close>

theorem accepted_results_invariant_witness:
  "map sr_url (parse_results
      (S ''[### Example Title](https://example.com/page?x=1#frag)'' @ [10]
       @ S ''[### Example again](https://example.com/page#other)'' @ [10]
       @ S ''[### Maps](https://www.google.com/maps)''))
     = [S ''https://example.com/page'']
   \<and> distinct (map sr_url (parse_results
      (S ''[### Example Title](https://example.com/page?x=1#frag)'' @ [10]
       @ S ''[### Example again](https://example.com/page#other)'' @ [10]
       @ S ''[### Maps](https://www.google.com/maps)'')))
   \<and> sr_title (hd (parse_results
      (S ''[### Example Title](https://example.com/page?x=1#frag)'' @ [10]
       @ S ''[### Example again](https://example.com/page#other)'' @ [10]
       @ S ''[### Maps](https://www.google.com/maps)''))) \<noteq> []"
proof -
  let ?c = "S ''[### Example Title](https://example.com/page?x=1#frag)'' @ [10]
       @ S ''[### Example again](https://example.com/page#other)'' @ [10]
       @ S ''[### Maps](https://www.google.com/maps)''"
  have u: "map sr_url (parse_results ?c) = [S ''https://example.com/page'']"
    by (simp add: parser_eval)
  then have "parse_results ?c \<noteq> []" by auto
  then have "hd (parse_results ?c) \<in> set (parse_results ?c)" by simp
  then show ?thesis
    using accepted_results_invariant [of ?c] u by blast
qed

text \<open>
  An image URL with a query string is accepted, and its canonicalized URL matches the
  image-file pattern.
\<close>

theorem image_url_with_query_counterexample:
  "parse_results (S ''[### Chart](https://example.com/chart.png?size=large)'')
     = [\<lparr> sr_title = S ''Chart'', sr_url = S ''https://example.com/chart.png'',
          sr_description = [] \<rparr>]
   \<and> image_file (S ''https://example.com/chart.png'')
   \<and> should_filter (S ''https://example.com/chart.png'')"
  by (simp add: parser_eval)

subsection \<open>The description scan\<close>

lemma strip_decomp:
  "(\<exists>a b. s = a @ strip s @ b \<and> list_all isspace a \<and> list_all isspace b)
   \<and> (strip s \<noteq> [] \<longrightarrow> \<not> isspace (hd (strip s)) \<and> \<not> isspace (last (strip s)))"
proof -
  define r where "r = dropWhile isspace s"
  define d where "d = dropWhile isspace (rev r)"
  have st: "strip s = rev d" by (simp add: strip_def d_def r_def)
  have s: "s = takeWhile isspace s @ r" by (simp add: r_def)
  have "rev r = takeWhile isspace (rev r) @ d" by (simp add: d_def)
  then have "rev (rev r) = rev (takeWhile isspace (rev r) @ d)" by simp
  then have r: "r = rev d @ rev (takeWhile isspace (rev r))" by simp
  have a: "list_all isspace (takeWhile isspace s)"
    by (simp add: list_all_iff) (meson set_takeWhileD)
  have b: "list_all isspace (rev (takeWhile isspace (rev r)))"
    by (simp add: list_all_iff) (meson set_takeWhileD)
  have "s = takeWhile isspace s @ strip s @ rev (takeWhile isspace (rev r))"
    using s r st by simp
  then have ex: "\<exists>a b. s = a @ strip s @ b \<and> list_all isspace a \<and> list_all isspace b"
    using a b by blast
  have ends: "\<not> isspace (hd (strip s)) \<and> \<not> isspace (last (strip s))" if ne: "strip s \<noteq> []"
  proof -
    have dne: "d \<noteq> []" using ne st by simp
    then have "\<not> isspace (hd d)" unfolding d_def by (rule hd_dropWhile)
    then have l: "\<not> isspace (last (strip s))" using dne st by (simp add: last_rev)
    have rne: "r \<noteq> []" using dne by (auto simp: d_def)
    then have hr: "\<not> isspace (hd r)" unfolding r_def by (rule hd_dropWhile)
    have "hd r = hd (rev d)" using r dne by (metis hd_append2 rev_is_Nil_conv)
    then show ?thesis using hr l st by simp
  qed
  show ?thesis using ex ends by blast
qed

lemma takeWhile_upto:
  "x \<notin> set run \<Longrightarrow> takeWhile (\<lambda>c. c \<noteq> x) (run @ x # rest) = run"
  by (induction run) auto

lemma dropWhile_upto:
  "x \<notin> set run \<Longrightarrow> dropWhile (\<lambda>c. c \<noteq> x) (run @ x # rest) = x # rest"
  by (induction run) auto

lemma url_run_Some:
  "url_run scheme r = Some u \<longleftrightarrow>
     (\<exists>run. r = run @ S '')'' \<and> run \<noteq> [] \<and> 41 \<notin> set run \<and> u = scheme @ run)"
proof
  assume "url_run scheme r = Some u"
  then have h: "takeWhile (\<lambda>c. c \<noteq> 41) r \<noteq> []" "dropWhile (\<lambda>c. c \<noteq> 41) r = S '')''"
    "u = scheme @ takeWhile (\<lambda>c. c \<noteq> 41) r"
    by (auto simp: url_run_def split: if_splits)
  have "r = takeWhile (\<lambda>c. c \<noteq> 41) r @ S '')''"
    using takeWhile_dropWhile_id [of "\<lambda>c. c \<noteq> 41" r] h(2) by simp
  moreover have "41 \<notin> set (takeWhile (\<lambda>c. c \<noteq> 41) r)"
    using set_takeWhileD [of 41 "\<lambda>c. c \<noteq> 41" r] by auto
  ultimately show "\<exists>run. r = run @ S '')'' \<and> run \<noteq> [] \<and> 41 \<notin> set run \<and> u = scheme @ run"
    using h by blast
next
  assume "\<exists>run. r = run @ S '')'' \<and> run \<noteq> [] \<and> 41 \<notin> set run \<and> u = scheme @ run"
  then obtain run where run: "r = run @ S '')''" "run \<noteq> []" "41 \<notin> set run" "u = scheme @ run"
    by blast
  have "takeWhile (\<lambda>c. c \<noteq> 41) r = run" "dropWhile (\<lambda>c. c \<noteq> 41) r = S '')''"
    using run(1,3) by (simp_all add: takeWhile_upto dropWhile_upto)
  then show "url_run scheme r = Some u" using run by (simp add: url_run_def)
qed

lemma url_tail_iff:
  "url_tail y \<noteq> None \<longleftrightarrow>
     (\<exists>scheme run. y = S '']('' @ scheme @ run @ S '')''
        \<and> (scheme = S ''http://'' \<or> scheme = S ''https://'') \<and> run \<noteq> [] \<and> 41 \<notin> set run)"
proof
  assume a: "url_tail y \<noteq> None"
  then consider "startswith y (S ''](https://'')" "url_run (S ''https://'') (drop 10 y) \<noteq> None"
    | "startswith y (S ''](http://'')" "url_run (S ''http://'') (drop 9 y) \<noteq> None"
    by (auto simp: url_tail_def split: if_splits)
  then show "\<exists>scheme run. y = S '']('' @ scheme @ run @ S '')''
        \<and> (scheme = S ''http://'' \<or> scheme = S ''https://'') \<and> run \<noteq> [] \<and> 41 \<notin> set run"
  proof cases
    case 1
    from 1(2) obtain run where run: "drop 10 y = run @ S '')''" "run \<noteq> []" "41 \<notin> set run"
      using url_run_Some by fastforce
    have "y = S ''](https://'' @ drop 10 y" using startswith_drop [OF 1(1), of 10] by simp
    then have "y = S '']('' @ S ''https://'' @ run @ S '')''" using run(1) by simp
    then show ?thesis using run by blast
  next
    case 2
    from 2(2) obtain run where run: "drop 9 y = run @ S '')''" "run \<noteq> []" "41 \<notin> set run"
      using url_run_Some by fastforce
    have "y = S ''](http://'' @ drop 9 y" using startswith_drop [OF 2(1), of 9] by simp
    then have "y = S '']('' @ S ''http://'' @ run @ S '')''" using run(1) by simp
    then show ?thesis using run by blast
  qed
next
  assume "\<exists>scheme run. y = S '']('' @ scheme @ run @ S '')''
        \<and> (scheme = S ''http://'' \<or> scheme = S ''https://'') \<and> run \<noteq> [] \<and> 41 \<notin> set run"
  then obtain scheme run where y: "y = S '']('' @ scheme @ run @ S '')''"
    "scheme = S ''http://'' \<or> scheme = S ''https://''" "run \<noteq> []" "41 \<notin> set run" by blast
  from y(2) show "url_tail y \<noteq> None"
  proof
    assume sc: "scheme = S ''http://''"
    have "url_run (S ''http://'') (run @ S '')'') = Some (S ''http://'' @ run)"
      using y(3,4) url_run_Some by blast
    then show ?thesis using y(1) sc by (simp add: url_tail_def)
  next
    assume sc: "scheme = S ''https://''"
    have "url_run (S ''https://'') (run @ S '')'') = Some (S ''https://'' @ run)"
      using y(3,4) url_run_Some by blast
    then show ?thesis using y(1) sc by (simp add: url_tail_def)
  qed
qed

lemma last_split_iff:
  "last_split title rest \<noteq> None \<longleftrightarrow>
     (\<exists>x y. rest = x @ y \<and> title @ x \<noteq> [] \<and> url_tail y \<noteq> None)"
proof (induction rest arbitrary: title)
  case Nil
  then show ?case by (simp add: url_tail_def)
next
  case (Cons c cs)
  have "last_split title (c # cs) \<noteq> None \<longleftrightarrow>
          last_split (title @ [c]) cs \<noteq> None \<or> (title \<noteq> [] \<and> url_tail (c # cs) \<noteq> None)"
    by (auto split: option.splits)
  also have "\<dots> \<longleftrightarrow> (\<exists>x y. cs = x @ y \<and> url_tail y \<noteq> None)
                 \<or> (title \<noteq> [] \<and> url_tail (c # cs) \<noteq> None)"
    using Cons.IH [of "title @ [c]"] by simp
  also have "\<dots> \<longleftrightarrow> (\<exists>x y. c # cs = x @ y \<and> title @ x \<noteq> [] \<and> url_tail y \<noteq> None)"
  proof
    assume "(\<exists>x y. cs = x @ y \<and> url_tail y \<noteq> None)
                 \<or> (title \<noteq> [] \<and> url_tail (c # cs) \<noteq> None)"
    then show "\<exists>x y. c # cs = x @ y \<and> title @ x \<noteq> [] \<and> url_tail y \<noteq> None"
    proof
      assume "\<exists>x y. cs = x @ y \<and> url_tail y \<noteq> None"
      then obtain x y where "cs = x @ y" "url_tail y \<noteq> None" by blast
      then have "c # cs = (c # x) @ y \<and> title @ (c # x) \<noteq> [] \<and> url_tail y \<noteq> None" by simp
      then show ?thesis by blast
    next
      assume "title \<noteq> [] \<and> url_tail (c # cs) \<noteq> None"
      then have "c # cs = [] @ (c # cs) \<and> title @ [] \<noteq> [] \<and> url_tail (c # cs) \<noteq> None" by simp
      then show ?thesis by blast
    qed
  next
    assume "\<exists>x y. c # cs = x @ y \<and> title @ x \<noteq> [] \<and> url_tail y \<noteq> None"
    then obtain x y where xy: "c # cs = x @ y" "title @ x \<noteq> []" "url_tail y \<noteq> None" by blast
    show "(\<exists>x y. cs = x @ y \<and> url_tail y \<noteq> None)
                 \<or> (title \<noteq> [] \<and> url_tail (c # cs) \<noteq> None)"
    proof (cases x)
      case Nil
      then show ?thesis using xy by simp
    next
      case (Cons a x')
      then have "cs = x' @ y" using xy(1) by simp
      then show ?thesis using xy(3) by blast
    qed
  qed
  finally show ?case .
qed

lemma match_result_iff:
  "match_result l \<noteq> None \<longleftrightarrow>
     (\<exists>t scheme run. l = S ''[### '' @ t @ S '']('' @ scheme @ run @ S '')'' \<and> t \<noteq> []
        \<and> (scheme = S ''http://'' \<or> scheme = S ''https://'') \<and> run \<noteq> [] \<and> 41 \<notin> set run)"
proof
  assume a: "match_result l \<noteq> None"
  then have sw: "startswith l (S ''[### '')" and ls: "last_split [] (drop 5 l) \<noteq> None"
    by (auto simp: match_result_def split: if_splits)
  from ls obtain x y where xy: "drop 5 l = x @ y" "x \<noteq> []" "url_tail y \<noteq> None"
    using last_split_iff [of "[]" "drop 5 l"] by auto
  from xy(3) obtain scheme run where y: "y = S '']('' @ scheme @ run @ S '')''"
    "scheme = S ''http://'' \<or> scheme = S ''https://''" "run \<noteq> []" "41 \<notin> set run"
    using url_tail_iff by blast
  have "l = S ''[### '' @ drop 5 l" using startswith_drop [OF sw, of 5] by simp
  then have "l = S ''[### '' @ x @ S '']('' @ scheme @ run @ S '')''" using xy(1) y(1) by simp
  then show "\<exists>t scheme run. l = S ''[### '' @ t @ S '']('' @ scheme @ run @ S '')'' \<and> t \<noteq> []
        \<and> (scheme = S ''http://'' \<or> scheme = S ''https://'') \<and> run \<noteq> [] \<and> 41 \<notin> set run"
    using xy(2) y by blast
next
  assume "\<exists>t scheme run. l = S ''[### '' @ t @ S '']('' @ scheme @ run @ S '')'' \<and> t \<noteq> []
        \<and> (scheme = S ''http://'' \<or> scheme = S ''https://'') \<and> run \<noteq> [] \<and> 41 \<notin> set run"
  then obtain t scheme run where l: "l = S ''[### '' @ t @ S '']('' @ scheme @ run @ S '')''"
    "t \<noteq> []" "scheme = S ''http://'' \<or> scheme = S ''https://''" "run \<noteq> []" "41 \<notin> set run"
    by blast
  have "url_tail (S '']('' @ scheme @ run @ S '')'') \<noteq> None"
    using l(3,4,5) url_tail_iff by blast
  then have "last_split [] (t @ S '']('' @ scheme @ run @ S '')'') \<noteq> None"
    using l(2) last_split_iff [of "[]" "t @ S '']('' @ scheme @ run @ S '')''"] by auto
  then show "match_result l \<noteq> None" using l(1) by (simp add: match_result_def)
qed

lemma domain_from_iff:
  "domain_from s \<longleftrightarrow>
     (\<exists>a b. s = a @ 46 # b \<and> list_all domain_char a \<and> 2 \<le> length b \<and> list_all ci_letter b)"
proof (induction s)
  case Nil
  then show ?case by simp
next
  case (Cons c cs)
  show ?case
  proof
    assume "domain_from (c # cs)"
    then consider "domain_tail (c # cs)" | "domain_char c" "domain_from cs" by auto
    then show "\<exists>a b. c # cs = a @ 46 # b \<and> list_all domain_char a \<and> 2 \<le> length b
                 \<and> list_all ci_letter b"
    proof cases
      case 1
      then have "c # cs = [] @ 46 # cs \<and> list_all domain_char [] \<and> 2 \<le> length cs
                  \<and> list_all ci_letter cs"
        by (simp add: domain_tail_def)
      then show ?thesis by blast
    next
      case 2
      then obtain a b where "cs = a @ 46 # b" "list_all domain_char a" "2 \<le> length b"
        "list_all ci_letter b" using Cons.IH by blast
      then have "c # cs = (c # a) @ 46 # b \<and> list_all domain_char (c # a) \<and> 2 \<le> length b
                  \<and> list_all ci_letter b" using 2(1) by simp
      then show ?thesis by blast
    qed
  next
    assume "\<exists>a b. c # cs = a @ 46 # b \<and> list_all domain_char a \<and> 2 \<le> length b
                 \<and> list_all ci_letter b"
    then obtain a b where ab: "c # cs = a @ 46 # b" "list_all domain_char a" "2 \<le> length b"
      "list_all ci_letter b" by blast
    show "domain_from (c # cs)"
    proof (cases a)
      case Nil
      then show ?thesis using ab by (simp add: domain_tail_def)
    next
      case (Cons x a')
      then have "cs = a' @ 46 # b" "domain_char c" "list_all domain_char a'" using ab by auto
      then have "domain_from cs" using Cons.IH ab by blast
      then show ?thesis using \<open>domain_char c\<close> by simp
    qed
  qed
qed

lemma bare_domain_iff:
  "bare_domain s \<longleftrightarrow>
     (\<exists>a b. s = a @ 46 # b \<and> a \<noteq> [] \<and> list_all domain_char a \<and> 2 \<le> length b
        \<and> list_all ci_letter b)"
proof
  assume "bare_domain s"
  then obtain c cs where s: "s = c # cs" "domain_char c" "domain_from cs"
    by (auto simp: bare_domain_def split: list.splits)
  then obtain a b where "cs = a @ 46 # b" "list_all domain_char a" "2 \<le> length b"
    "list_all ci_letter b" using domain_from_iff by blast
  then have "s = (c # a) @ 46 # b \<and> c # a \<noteq> [] \<and> list_all domain_char (c # a)
              \<and> 2 \<le> length b \<and> list_all ci_letter b" using s by simp
  then show "\<exists>a b. s = a @ 46 # b \<and> a \<noteq> [] \<and> list_all domain_char a \<and> 2 \<le> length b
        \<and> list_all ci_letter b" by blast
next
  assume "\<exists>a b. s = a @ 46 # b \<and> a \<noteq> [] \<and> list_all domain_char a \<and> 2 \<le> length b
        \<and> list_all ci_letter b"
  then obtain a b where ab: "s = a @ 46 # b" "a \<noteq> []" "list_all domain_char a" "2 \<le> length b"
    "list_all ci_letter b" by blast
  then obtain c a' where a: "a = c # a'" by (cases a) auto
  then have "domain_from (a' @ 46 # b)" using ab domain_from_iff by auto
  then show "bare_domain s" using ab a by (simp add: bare_domain_def)
qed

lemma noise_iff:
  "noise l \<longleftrightarrow>
     (\<exists>t. l = S ''['' @ t) \<or> (\<exists>t. l = S ''http'' @ t) \<or> (\<exists>t. l = S ''!['' @ t)
     \<or> (\<exists>t. l = S ''*'' @ t)
     \<or> (\<exists>x y. lower l = x @ S ''feedback'' @ y)
     \<or> (\<exists>a b. l = a @ 46 # b \<and> a \<noteq> [] \<and> list_all domain_char a \<and> 2 \<le> length b
           \<and> list_all ci_letter b)
     \<or> length l < 30"
  unfolding noise_def startswith_iff contains_iff bare_domain_iff by (rule refl)

lemma stops_scan_iff:
  "stops_scan l \<longleftrightarrow>
     (\<exists>t scheme run. l = S ''[### '' @ t @ S '']('' @ scheme @ run @ S '')'' \<and> t \<noteq> []
        \<and> (scheme = S ''http://'' \<or> scheme = S ''https://'') \<and> run \<noteq> [] \<and> 41 \<notin> set run)
     \<or> (\<exists>t. l = S ''##'' @ t)"
  unfolding stops_scan_def startswith_iff match_result_iff by (rule refl)

lemma strip_emphasis_plain: "95 \<notin> set pre \<Longrightarrow> strip_emphasis (pre @ s) = pre @ strip_emphasis s"
  by (induction pre) auto

lemma strip_emphasis_pair:
  assumes "run \<noteq> []" and "95 \<notin> set run"
  shows "strip_emphasis (95 # run @ 95 # post) = run @ strip_emphasis post"
  using assms by (simp add: takeWhile_upto dropWhile_upto)

lemma strip_emphasis_double: "strip_emphasis (95 # 95 # post) = 95 # strip_emphasis (95 # post)"
  by simp

lemma strip_emphasis_open:
  assumes "95 \<notin> set run"
  shows "strip_emphasis (95 # run) = 95 # run"
proof -
  have "dropWhile (\<lambda>x. x \<noteq> 95) run = []"
    using assms by (auto simp: dropWhile_eq_Nil_conv)
  moreover have "strip_emphasis run = run" using strip_emphasis_plain [OF assms, of "[]"] by simp
  ultimately show ?thesis by simp
qed

lemma cut_at_absent: "\<not> (\<exists>x y. s = x @ marker @ y) \<Longrightarrow> cut_at marker s = s"
proof (induction s)
  case Nil
  then show ?case by simp
next
  case (Cons c cs)
  have "\<not> startswith (c # cs) marker"
  proof
    assume "startswith (c # cs) marker"
    then obtain t where "c # cs = [] @ marker @ t" by (auto simp: startswith_iff)
    then show False using Cons.prems by blast
  qed
  moreover have "\<not> (\<exists>x y. cs = x @ marker @ y)"
  proof
    assume "\<exists>x y. cs = x @ marker @ y"
    then obtain x y where "cs = x @ marker @ y" by blast
    then have "c # cs = (c # x) @ marker @ y" by simp
    then show False using Cons.prems by blast
  qed
  ultimately show ?case using Cons.IH by simp
qed

lemma cut_at_first:
  assumes "s = x @ marker @ y"
    and "\<forall>x' y'. s = x' @ marker @ y' \<longrightarrow> length x \<le> length x'"
  shows "cut_at marker s = x"
  using assms
proof (induction x arbitrary: s)
  case Nil
  show ?case
  proof (cases s)
    case Nil
    then show ?thesis by simp
  next
    case (Cons c cs)
    have "startswith (c # cs) marker" using Nil.prems(1) Cons by (simp add: startswith_iff)
    then show ?thesis using Cons by simp
  qed
next
  case (Cons a x)
  have s: "s = a # (x @ marker @ y)" using Cons.prems(1) by simp
  have "\<not> startswith s marker"
  proof
    assume "startswith s marker"
    then obtain t where "s = [] @ marker @ t" by (auto simp: startswith_iff)
    then have "length (a # x) \<le> length ([] :: pystr)" using Cons.prems(2) by blast
    then show False by simp
  qed
  moreover have "cut_at marker (x @ marker @ y) = x"
  proof (rule Cons.IH [OF refl], intro allI impI)
    fix x' y' assume "x @ marker @ y = x' @ marker @ y'"
    then have "s = (a # x') @ marker @ y'" using s by simp
    then have "length (a # x) \<le> length (a # x')" using Cons.prems(2) by blast
    then show "length x \<le> length x'" by simp
  qed
  ultimately show ?case using s by simp
qed

lemma eat_Some: "eat cls s = Some r \<longleftrightarrow> (\<exists>c. s = c # r \<and> cls c)"
  by (auto simp: eat_def split: list.splits if_splits)

lemma eat_lit_Some: "eat_lit lit s = Some r \<longleftrightarrow> s = lit @ r"
  by (auto simp: eat_lit_def startswith_iff)

lemma date_rest_iff:
  "date_rest s = Some r \<longleftrightarrow>
     (\<exists>ys. s = S '', '' @ ys @ [32, 8212, 32] @ r \<and> length ys = 4 \<and> list_all is_digit ys)"
proof
  assume "date_rest s = Some r"
  then obtain s1 s2 s3 s4 s5 where
    e: "eat_lit (S '', '') s = Some s1" "eat is_digit s1 = Some s2" "eat is_digit s2 = Some s3"
      "eat is_digit s3 = Some s4" "eat is_digit s4 = Some s5" "eat_lit [32, 8212, 32] s5 = Some r"
    unfolding date_rest_def bind_eq_Some_conv by blast
  then obtain d1 d2 d3 d4 where
    d: "s1 = d1 # s2" "is_digit d1" "s2 = d2 # s3" "is_digit d2" "s3 = d3 # s4" "is_digit d3"
      "s4 = d4 # s5" "is_digit d4"
    unfolding eat_Some by blast
  have "s = S '', '' @ [d1, d2, d3, d4] @ [32, 8212, 32] @ r"
    using e(1,6) d unfolding eat_lit_Some by simp
  moreover have "length [d1, d2, d3, d4] = 4 \<and> list_all is_digit [d1, d2, d3, d4]"
    using d by simp
  ultimately show "\<exists>ys. s = S '', '' @ ys @ [32, 8212, 32] @ r \<and> length ys = 4
                     \<and> list_all is_digit ys" by blast
next
  assume "\<exists>ys. s = S '', '' @ ys @ [32, 8212, 32] @ r \<and> length ys = 4 \<and> list_all is_digit ys"
  then obtain ys where ys: "s = S '', '' @ ys @ [32, 8212, 32] @ r" "length ys = 4"
    "list_all is_digit ys" by blast
  from ys(2) obtain d1 d2 d3 d4 where y4: "ys = [d1, d2, d3, d4]"
    by (auto simp: length_Suc_conv eval_nat_numeral)
  show "date_rest s = Some r"
    using ys(1,3) unfolding y4 by (simp add: date_rest_def eat_def eat_lit_def)
qed

lemma not_digit_comma: "\<not> is_digit 44"
  by (simp add: is_digit_def in_ranges_def decimal_digit_ranges_def)

lemma date_stamp_iff:
  "date_stamp s = Some r \<longleftrightarrow>
     (\<exists>u l1 l2 ds ys. s = [u, l1, l2, 32] @ ds @ S '', '' @ ys @ [32, 8212, 32] @ r
        \<and> is_upper u \<and> is_lower l1 \<and> is_lower l2
        \<and> (length ds = 1 \<or> length ds = 2) \<and> list_all is_digit ds
        \<and> length ys = 4 \<and> list_all is_digit ys)"
proof
  assume "date_stamp s = Some r"
  then obtain s1 s2 s3 s4 where
    e: "eat is_upper s = Some s1" "eat is_lower s1 = Some s2" "eat is_lower s2 = Some s3"
      "eat_lit (S '' '') s3 = Some s4"
      "(case Option.bind (eat is_digit s4) (\<lambda>s. Option.bind (eat is_digit s) date_rest) of
          Some rest \<Rightarrow> Some rest
        | None \<Rightarrow> Option.bind (eat is_digit s4) date_rest) = Some r"
    unfolding date_stamp_def bind_eq_Some_conv by blast
  from e(1,2,3,4) obtain u l1 l2 where
    p: "s = [u, l1, l2, 32] @ s4" "is_upper u" "is_lower l1" "is_lower l2"
    unfolding eat_Some eat_lit_Some by auto
  from e(5) consider
    "Option.bind (eat is_digit s4) (\<lambda>s. Option.bind (eat is_digit s) date_rest) = Some r"
    | "Option.bind (eat is_digit s4) date_rest = Some r"
    by (auto split: option.splits)
  then have "\<exists>ds ys. s4 = ds @ S '', '' @ ys @ [32, 8212, 32] @ r
        \<and> (length ds = 1 \<or> length ds = 2) \<and> list_all is_digit ds
        \<and> length ys = 4 \<and> list_all is_digit ys"
  proof cases
    case 1
    then obtain t1 t2 where "eat is_digit s4 = Some t1" "eat is_digit t1 = Some t2"
      "date_rest t2 = Some r" unfolding bind_eq_Some_conv by blast
    then obtain d1 d2 ys where "s4 = d1 # t1" "is_digit d1" "t1 = d2 # t2" "is_digit d2"
      "t2 = S '', '' @ ys @ [32, 8212, 32] @ r" "length ys = 4" "list_all is_digit ys"
      unfolding eat_Some date_rest_iff by blast
    then have "s4 = [d1, d2] @ S '', '' @ ys @ [32, 8212, 32] @ r
        \<and> (length [d1, d2] = 1 \<or> length [d1, d2] = 2) \<and> list_all is_digit [d1, d2]
        \<and> length ys = 4 \<and> list_all is_digit ys" by simp
    then show ?thesis by blast
  next
    case 2
    then obtain t1 where "eat is_digit s4 = Some t1" "date_rest t1 = Some r"
      unfolding bind_eq_Some_conv by blast
    then obtain d1 ys where "s4 = d1 # t1" "is_digit d1"
      "t1 = S '', '' @ ys @ [32, 8212, 32] @ r" "length ys = 4" "list_all is_digit ys"
      unfolding eat_Some date_rest_iff by blast
    then have "s4 = [d1] @ S '', '' @ ys @ [32, 8212, 32] @ r
        \<and> (length [d1] = 1 \<or> length [d1] = 2) \<and> list_all is_digit [d1]
        \<and> length ys = 4 \<and> list_all is_digit ys" by simp
    then show ?thesis by blast
  qed
  then show "\<exists>u l1 l2 ds ys. s = [u, l1, l2, 32] @ ds @ S '', '' @ ys @ [32, 8212, 32] @ r
        \<and> is_upper u \<and> is_lower l1 \<and> is_lower l2
        \<and> (length ds = 1 \<or> length ds = 2) \<and> list_all is_digit ds
        \<and> length ys = 4 \<and> list_all is_digit ys"
    using p by auto
next
  assume "\<exists>u l1 l2 ds ys. s = [u, l1, l2, 32] @ ds @ S '', '' @ ys @ [32, 8212, 32] @ r
        \<and> is_upper u \<and> is_lower l1 \<and> is_lower l2
        \<and> (length ds = 1 \<or> length ds = 2) \<and> list_all is_digit ds
        \<and> length ys = 4 \<and> list_all is_digit ys"
  then obtain u l1 l2 ds ys where
    a: "s = [u, l1, l2, 32] @ ds @ S '', '' @ ys @ [32, 8212, 32] @ r"
      "is_upper u" "is_lower l1" "is_lower l2" "length ds = 1 \<or> length ds = 2"
      "list_all is_digit ds" "length ys = 4" "list_all is_digit ys" by blast
  have dr: "date_rest (S '', '' @ ys @ [32, 8212, 32] @ r) = Some r"
    using a(7,8) date_rest_iff by blast
  from a(5) show "date_stamp s = Some r"
  proof
    assume "length ds = 1"
    then obtain d1 where ds: "ds = [d1]" by (auto simp: length_Suc_conv)
    have two: "eat is_digit (S '', '' @ ys @ [32, 8212, 32] @ r) = None"
      using not_digit_comma by (simp add: eat_def)
    show ?thesis
      using a(1,2,3,4,6) dr two unfolding ds
      by (simp add: date_stamp_def eat_def eat_lit_def)
  next
    assume "length ds = 2"
    then obtain d1 d2 where ds: "ds = [d1, d2]"
      by (auto simp: length_Suc_conv eval_nat_numeral)
    show ?thesis
      using a(1,2,3,4,6) dr unfolding ds
      by (simp add: date_stamp_def eat_def eat_lit_def)
  qed
qed

lemma scan_description_found:
  assumes "\<forall>x \<in> set pre. \<not> stops_scan (strip x)
             \<and> (noise (strip x) \<or> length (clean_desc (strip x)) \<le> 30)"
    and "\<not> stops_scan (strip l)" and "\<not> noise (strip l)"
    and "30 < length (clean_desc (strip l))"
  shows "scan_description (pre @ l # post) = clean_desc (strip l)"
  using assms by (induction pre) (auto simp: Let_def)

lemma scan_description_stopped:
  assumes "\<forall>x \<in> set pre. \<not> stops_scan (strip x)
             \<and> (noise (strip x) \<or> length (clean_desc (strip x)) \<le> 30)"
    and "stops_scan (strip l)"
  shows "scan_description (pre @ l # post) = []"
  using assms by (induction pre) (auto simp: Let_def)

lemma scan_description_exhausted:
  assumes "\<forall>x \<in> set ls. \<not> stops_scan (strip x)
             \<and> (noise (strip x) \<or> length (clean_desc (strip x)) \<le> 30)"
  shows "scan_description ls = []"
  using assms by (induction ls) (auto simp: Let_def)

lemma ci_letter_iff:
  "ci_letter c \<longleftrightarrow> (65 \<le> c \<and> c \<le> 90) \<or> (97 \<le> c \<and> c \<le> 122) \<or> c = 304 \<or> c = 305 \<or> c = 383
     \<or> c = 8490"
  by (auto simp: ci_letter_def ci_fold_def)

lemma domain_char_iff:
  "domain_char c \<longleftrightarrow> c = 45 \<or> c = 46 \<or> (48 \<le> c \<and> c \<le> 57) \<or> (65 \<le> c \<and> c \<le> 90)
     \<or> (97 \<le> c \<and> c \<le> 122) \<or> c = 304 \<or> c = 305 \<or> c = 383 \<or> c = 8490"
  by (auto simp: domain_char_def ci_letter_iff)

lemma strip_date_stamp:
  assumes "is_upper u" and "is_lower l1" and "is_lower l2"
    and "length ds = 1 \<or> length ds = 2" and "list_all is_digit ds"
    and "length ys = 4" and "list_all is_digit ys"
  shows "strip_date ([u, l1, l2, 32] @ ds @ S '', '' @ ys @ [32, 8212, 32] @ s) = s"
proof -
  have "date_stamp ([u, l1, l2, 32] @ ds @ S '', '' @ ys @ [32, 8212, 32] @ s) = Some s"
    unfolding date_stamp_iff using assms by blast
  then show ?thesis by (simp add: strip_date_def)
qed

lemma strip_date_none:
  assumes "\<not> (\<exists>u l1 l2 ds ys r. s = [u, l1, l2, 32] @ ds @ S '', '' @ ys @ [32, 8212, 32] @ r
        \<and> is_upper u \<and> is_lower l1 \<and> is_lower l2
        \<and> (length ds = 1 \<or> length ds = 2) \<and> list_all is_digit ds
        \<and> length ys = 4 \<and> list_all is_digit ys)"
  shows "strip_date s = s"
proof (cases "date_stamp s")
  case None
  then show ?thesis by (simp add: strip_date_def)
next
  case (Some r)
  then have "\<exists>u l1 l2 ds ys. s = [u, l1, l2, 32] @ ds @ S '', '' @ ys @ [32, 8212, 32] @ r
        \<and> is_upper u \<and> is_lower l1 \<and> is_lower l2
        \<and> (length ds = 1 \<or> length ds = 2) \<and> list_all is_digit ds
        \<and> length ys = 4 \<and> list_all is_digit ys"
    unfolding date_stamp_iff .
  then show ?thesis using assms by blast
qed

lemma parse_lines_accept:
  assumes "match_result line = Some (raw_title, url)" and "\<not> should_filter url"
    and "clean_url url \<notin> seen" and "clean_title raw_title \<noteq> []"
  shows "parse_lines seen (line # rest)
          = \<lparr> sr_title = clean_title raw_title, sr_url = clean_url url,
              sr_description = scan_description (take 9 rest) \<rparr>
            # parse_lines (insert (clean_url url) seen) rest"
  using assms by (simp add: Let_def)

lemma parse_results_origin:
  assumes "r \<in> set (parse_results content)"
  shows "\<exists>pre line rest raw_title url.
        split_lines content = pre @ line # rest \<and> match_result line = Some (raw_title, url)
        \<and> sr_url r = clean_url url \<and> sr_description r = scan_description (take 9 rest)"
proof -
  have "r \<in> set (parse_lines {} (split_lines content))"
    using assms by (simp add: parse_results_def)
  from parse_lines_origin [OF this] show ?thesis by blast
qed

text \<open>
  C9. The description of every result is what the scan of the nine lines after its header
  gives (fewer when the text ends before), and an accepted header always yields a result.
  The scan takes each line stripped. It returns the cleaned text of the first line that
  is no noise and whose cleaned text is longer than 30 characters, provided no earlier
  line and not this line stops the scan; it returns the empty text when a line stops the
  scan before, or when the lines run out. A line stops the scan when it is a result header
  or starts with \<open>##\<close>. Noise is a line that starts with \<open>[\<close>, \<open>http\<close>, \<open>![\<close> or \<open>*\<close>, that
  holds the word feedback in any case, that is a bare domain, or that has fewer than 30
  characters. Cleaning removes emphasis underscores around a run without underscores,
  cuts the text at \<open>[Read more]\<close>, removes a leading date stamp (capital letter, two
  small letters, space, one or two digits, comma, space, four digits, space, dash U+2014,
  space) and strips white space at both ends.
\<close>

theorem description_scan:
  "(\<forall>r \<in> set (parse_results content).
      \<exists>pre line rest raw_title url.
        split_lines content = pre @ line # rest \<and> match_result line = Some (raw_title, url)
        \<and> sr_url r = clean_url url \<and> sr_description r = scan_description (take 9 rest))
   \<and> (match_result line = Some (raw_title, url) \<and> \<not> should_filter url
        \<and> clean_url url \<notin> seen \<and> clean_title raw_title \<noteq> [] \<longrightarrow>
        parse_lines seen (line # rest)
          = \<lparr> sr_title = clean_title raw_title, sr_url = clean_url url,
              sr_description = scan_description (take 9 rest) \<rparr>
            # parse_lines (insert (clean_url url) seen) rest)
   \<and> ((\<forall>x \<in> set before. \<not> stops_scan (strip x)
              \<and> (noise (strip x) \<or> length (clean_desc (strip x)) \<le> 30))
        \<and> \<not> stops_scan (strip l) \<and> \<not> noise (strip l) \<and> 30 < length (clean_desc (strip l)) \<longrightarrow>
        scan_description (before @ l # after) = clean_desc (strip l))
   \<and> ((\<forall>x \<in> set before. \<not> stops_scan (strip x)
              \<and> (noise (strip x) \<or> length (clean_desc (strip x)) \<le> 30))
        \<and> stops_scan (strip l) \<longrightarrow>
        scan_description (before @ l # after) = [])
   \<and> ((\<forall>x \<in> set ls. \<not> stops_scan (strip x)
              \<and> (noise (strip x) \<or> length (clean_desc (strip x)) \<le> 30)) \<longrightarrow>
        scan_description ls = [])
   \<and> (stops_scan l \<longleftrightarrow>
        (\<exists>t scheme run. l = S ''[### '' @ t @ S '']('' @ scheme @ run @ S '')'' \<and> t \<noteq> []
           \<and> (scheme = S ''http://'' \<or> scheme = S ''https://'') \<and> run \<noteq> [] \<and> 41 \<notin> set run)
        \<or> (\<exists>t. l = S ''##'' @ t))
   \<and> (noise l \<longleftrightarrow>
        (\<exists>t. l = S ''['' @ t) \<or> (\<exists>t. l = S ''http'' @ t) \<or> (\<exists>t. l = S ''!['' @ t)
        \<or> (\<exists>t. l = S ''*'' @ t)
        \<or> (\<exists>x y. lower l = x @ S ''feedback'' @ y)
        \<or> (\<exists>a b. l = a @ 46 # b \<and> a \<noteq> [] \<and> list_all domain_char a \<and> 2 \<le> length b
              \<and> list_all ci_letter b)
        \<or> length l < 30)
   \<and> (domain_char c \<longleftrightarrow> c = 45 \<or> c = 46 \<or> (48 \<le> c \<and> c \<le> 57) \<or> (65 \<le> c \<and> c \<le> 90)
        \<or> (97 \<le> c \<and> c \<le> 122) \<or> c = 304 \<or> c = 305 \<or> c = 383 \<or> c = 8490)
   \<and> (ci_letter c \<longleftrightarrow> (65 \<le> c \<and> c \<le> 90) \<or> (97 \<le> c \<and> c \<le> 122) \<or> c = 304 \<or> c = 305
        \<or> c = 383 \<or> c = 8490)
   \<and> clean_desc l = strip (strip_date (cut_at (S ''[Read more]'') (strip_emphasis l)))
   \<and> (95 \<notin> set p \<longrightarrow> strip_emphasis (p @ s) = p @ strip_emphasis s)
   \<and> (run \<noteq> [] \<and> 95 \<notin> set run \<longrightarrow> strip_emphasis (95 # run @ 95 # s) = run @ strip_emphasis s)
   \<and> strip_emphasis (95 # 95 # s) = 95 # strip_emphasis (95 # s)
   \<and> (95 \<notin> set run \<longrightarrow> strip_emphasis (95 # run) = 95 # run)
   \<and> (\<not> (\<exists>x y. s = x @ S ''[Read more]'' @ y) \<longrightarrow> cut_at (S ''[Read more]'') s = s)
   \<and> (s = x @ S ''[Read more]'' @ y
        \<and> (\<forall>x' y'. s = x' @ S ''[Read more]'' @ y' \<longrightarrow> length x \<le> length x') \<longrightarrow>
        cut_at (S ''[Read more]'') s = x)
   \<and> (is_upper u \<and> is_lower l1 \<and> is_lower l2
        \<and> (length ds = 1 \<or> length ds = 2) \<and> list_all is_digit ds
        \<and> length ys = 4 \<and> list_all is_digit ys \<longrightarrow>
        strip_date ([u, l1, l2, 32] @ ds @ S '', '' @ ys @ [32, 8212, 32] @ s) = s)
   \<and> (\<not> (\<exists>u l1 l2 ds ys r. s = [u, l1, l2, 32] @ ds @ S '', '' @ ys @ [32, 8212, 32] @ r
           \<and> is_upper u \<and> is_lower l1 \<and> is_lower l2
           \<and> (length ds = 1 \<or> length ds = 2) \<and> list_all is_digit ds
           \<and> length ys = 4 \<and> list_all is_digit ys) \<longrightarrow>
        strip_date s = s)
   \<and> (is_upper c \<longleftrightarrow> 65 \<le> c \<and> c \<le> 90) \<and> (is_lower c \<longleftrightarrow> 97 \<le> c \<and> c \<le> 122)
   \<and> (\<exists>a b. l = a @ strip l @ b \<and> list_all isspace a \<and> list_all isspace b)
   \<and> (strip l \<noteq> [] \<longrightarrow> \<not> isspace (hd (strip l)) \<and> \<not> isspace (last (strip l)))"
proof -
  note origin = parse_results_origin [of _ content]
  note accept = parse_lines_accept [of line raw_title url seen rest]
  note found = scan_description_found [of before l after]
  note stopped = scan_description_stopped [of before l after]
  note exhausted = scan_description_exhausted [of ls]
  note stops = stops_scan_iff [of l]
  note nz = noise_iff [of l]
  note dc = domain_char_iff [of c]
  note cl = ci_letter_iff [of c]
  have clean: "clean_desc l = strip (strip_date (cut_at (S ''[Read more]'') (strip_emphasis l)))"
    by (simp add: clean_desc_def)
  note e1 = strip_emphasis_plain [of p s]
  note e2 = strip_emphasis_pair [of run s]
  note e3 = strip_emphasis_double [of s]
  note e4 = strip_emphasis_open [of run]
  note c1 = cut_at_absent [of s "S ''[Read more]''"]
  note c2 = cut_at_first [of s x "S ''[Read more]''" y]
  note d1 = strip_date_stamp [of u l1 l2 ds ys s]
  note d2 = strip_date_none [of s]
  have up: "is_upper c \<longleftrightarrow> 65 \<le> c \<and> c \<le> 90" by (simp add: is_upper_def)
  have lo: "is_lower c \<longleftrightarrow> 97 \<le> c \<and> c \<le> 122" by (simp add: is_lower_def)
  note st = strip_decomp [of l]
  show ?thesis
    apply (intro conjI)
    subgoal using origin by blast
    subgoal using accept by blast
    subgoal using found by blast
    subgoal using stopped by blast
    subgoal using exhausted by blast
    subgoal by (rule stops)
    subgoal by (rule nz)
    subgoal by (rule dc)
    subgoal by (rule cl)
    subgoal by (rule clean)
    subgoal using e1 by blast
    subgoal using e2 by blast
    subgoal by (rule e3)
    subgoal using e4 by blast
    subgoal using c1 by blast
    subgoal using c2 by blast
    subgoal using d1 by blast
    subgoal using d2 by blast
    subgoal by (rule up)
    subgoal by (rule lo)
    subgoal using st by blast
    subgoal using st by blast
    done
qed

text \<open>The definitions unfolded to run the description scan.\<close>

lemmas scan_eval =
  parser_eval lower_from.simps lower_table_def

text \<open>
  Four runs. Eight lines that are skipped (a link, a URL, an image, a bullet, a feedback
  line written with the Kelvin sign, a bare domain, a short line, a line too short once
  its emphasis is removed) and a dated description on the ninth line, its day written
  with the digit U+0665: the description is found. A section heading before the
  description, a result header with blanks around it before the description, and a
  description on the tenth line: the description is empty.
\<close>

theorem description_scan_witness:
  "parse_lines {}
     [S ''[### Example Title](https://example.com/page)'',
      S ''[A markdown link that is long enough](https://x.example/a)'',
      S ''https://example.com/a/bare/url/that/is/long/enough'',
      S ''![An image that is long enough to be a text](https://x.example/i)'',
      S ''* a bullet line that is long enough to be taken'',
      S ''Send feedbac'' @ [8490] @ S '' about these results, please do'',
      S ''a-very-long-subdomain.of.some.example-domain.com'',
      S ''short line'',
      S ''_This_ _text_ _is_ _too_ _short_ _now_'',
      S ''  Jan '' @ [1637] @ S '', 2024 '' @ [8212]
        @ S '' This is a _long_ enough description. [Read more](x)'']
   = [\<lparr> sr_title = S ''Example Title'', sr_url = S ''https://example.com/page'',
        sr_description = S ''This is a long enough description.'' \<rparr>]
   \<and> parse_lines {}
     [S ''[### Example Title](https://example.com/page)'',
      S ''## Section heading'',
      S ''This is a long enough description, after the heading.'']
   = [\<lparr> sr_title = S ''Example Title'', sr_url = S ''https://example.com/page'',
        sr_description = [] \<rparr>]
   \<and> parse_lines {}
     [S ''[### Example Title](https://example.com/page)'',
      S ''  [### Other](http://other.example/x) '',
      S ''This is a long enough description, after the header.'']
   = [\<lparr> sr_title = S ''Example Title'', sr_url = S ''https://example.com/page'',
        sr_description = [] \<rparr>]
   \<and> parse_lines {}
     [S ''[### Example Title](https://example.com/page)'',
      S ''1'', S ''2'', S ''3'', S ''4'', S ''5'', S ''6'', S ''7'', S ''8'', S ''9'',
      S ''This is a long enough description, on the tenth line.'']
   = [\<lparr> sr_title = S ''Example Title'', sr_url = S ''https://example.com/page'',
        sr_description = [] \<rparr>]"
proof -
  let ?line = "S ''[### Example Title](https://example.com/page)''"
  let ?r1 = "[S ''[A markdown link that is long enough](https://x.example/a)'',
      S ''https://example.com/a/bare/url/that/is/long/enough'',
      S ''![An image that is long enough to be a text](https://x.example/i)'',
      S ''* a bullet line that is long enough to be taken'',
      S ''Send feedbac'' @ [8490] @ S '' about these results, please do'',
      S ''a-very-long-subdomain.of.some.example-domain.com'',
      S ''short line'',
      S ''_This_ _text_ _is_ _too_ _short_ _now_'',
      S ''  Jan '' @ [1637] @ S '', 2024 '' @ [8212]
        @ S '' This is a _long_ enough description. [Read more](x)'']"
  let ?r2 = "[S ''## Section heading'',
      S ''This is a long enough description, after the heading.'']"
  let ?r3 = "[S ''  [### Other](http://other.example/x) '',
      S ''This is a long enough description, after the header.'']"
  let ?r4 = "[S ''1'', S ''2'', S ''3'', S ''4'', S ''5'', S ''6'', S ''7'', S ''8'', S ''9'',
      S ''This is a long enough description, on the tenth line.'']"
  have h: "match_result ?line = Some (S ''Example Title'', S ''https://example.com/page'')
        \<and> \<not> should_filter (S ''https://example.com/page'')
        \<and> clean_url (S ''https://example.com/page'') \<notin> {}
        \<and> clean_title (S ''Example Title'') \<noteq> []"
    by (simp add: parser_eval)
  have c: "clean_url (S ''https://example.com/page'') = S ''https://example.com/page''"
    "clean_title (S ''Example Title'') = S ''Example Title''"
    by (simp_all add: parser_eval)
  have d1: "scan_description (take 9 ?r1) = S ''This is a long enough description.''"
    by (simp add: scan_eval)
  have d2: "scan_description (take 9 ?r2) = []" by (simp add: scan_eval)
  have d3: "scan_description (take 9 ?r3) = []" by (simp add: scan_eval)
  have d4: "scan_description (take 9 ?r4) = []" by (simp add: scan_eval)
  have n1: "parse_lines (insert (S ''https://example.com/page'') {}) ?r1 = []"
    by (simp add: parser_eval)
  have n2: "parse_lines (insert (S ''https://example.com/page'') {}) ?r2 = []"
    by (simp add: parser_eval)
  have n3: "parse_lines (insert (S ''https://example.com/page'') {}) ?r3 = []"
    by (simp add: parser_eval)
  have n4: "parse_lines (insert (S ''https://example.com/page'') {}) ?r4 = []"
    by (simp add: parser_eval)
  note t = description_scan [where line = ?line and raw_title = "S ''Example Title''"
        and url = "S ''https://example.com/page''" and seen = "{}"]
  have 1: "parse_lines {} (?line # ?r1)
      = [\<lparr> sr_title = S ''Example Title'', sr_url = S ''https://example.com/page'',
           sr_description = S ''This is a long enough description.'' \<rparr>]"
    using t [where rest = ?r1] h unfolding c d1 n1 by blast
  have 2: "parse_lines {} (?line # ?r2)
      = [\<lparr> sr_title = S ''Example Title'', sr_url = S ''https://example.com/page'',
           sr_description = [] \<rparr>]"
    using t [where rest = ?r2] h unfolding c d2 n2 by blast
  have 3: "parse_lines {} (?line # ?r3)
      = [\<lparr> sr_title = S ''Example Title'', sr_url = S ''https://example.com/page'',
           sr_description = [] \<rparr>]"
    using t [where rest = ?r3] h unfolding c d3 n3 by blast
  have 4: "parse_lines {} (?line # ?r4)
      = [\<lparr> sr_title = S ''Example Title'', sr_url = S ''https://example.com/page'',
           sr_description = [] \<rparr>]"
    using t [where rest = ?r4] h unfolding c d4 n4 by blast
  show ?thesis using 1 2 3 4 by blast
qed

end
